theory Spec2Isabelle
  imports Complex_Main
begin

section \<open>Data model\<close>

text \<open>
  The enumerations of \<^verbatim>\<open>types.ts\<close>. \<^verbatim>\<open>ConversionOptions\<close> has three fields, each a
  union of string literals; every union becomes a datatype with one constructor per
  literal.
\<close>

datatype AppStatus = IDLE | FILES_SELECTED | CONVERTING | SUCCESS

datatype PageSize = a4 | letter | a3 | a5

datatype Orientation = portrait | landscape

datatype ImageFit = fit | original | fill

record ConversionOptions =
  pageSize :: PageSize
  orientation :: Orientation
  imageFit :: ImageFit

section \<open>Layout calculator\<close>

text \<open>
  The object \<^verbatim>\<open>{ width, height, x, y }\<close> returned by \<^verbatim>\<open>calculateImageDimensions\<close>.
  The fields carry a prefix so that \<open>x\<close> and \<open>y\<close> stay usable as variables.

  The function is modelled twice. \<open>calculateImageDimensions\<close> reads the arithmetic of
  the source as exact arithmetic on real numbers. \<open>calculateImageDimensions64\<close>, further
  down, reads it as the program executes it, every operation rounded to a binary64
  number; it is the one the conversion pipeline calls. Division by zero, which gives
  \<^verbatim>\<open>Infinity\<close> or \<^verbatim>\<open>NaN\<close> in JavaScript, gives \<open>0\<close> in HOL; no statement below reads a
  quotient whose divisor is zero as if it were the program's value.
\<close>

record Placement =
  p_width :: real
  p_height :: real
  p_x :: real
  p_y :: real


subsection \<open>Binary64 arithmetic\<close>

text \<open>
  A JavaScript number is an IEEE 754 binary64 number, and every arithmetic operation
  returns the exact result rounded to the nearest such number, ties going to the one
  with an even significand. The finite binary64 numbers are modelled as the real numbers
  they denote. A number of magnitude between \<open>2 powi e\<close> and \<open>2 powi (e + 1)\<close> is a
  multiple of \<open>2 powi (e - 52)\<close>; below \<open>2 powi (- 1022)\<close> the spacing stays at
  \<open>2 powi (- 1074)\<close>.

  Not modelled: results of magnitude \<open>2 powi 1024\<close> or more, which the program turns
  into \<^verbatim>\<open>Infinity\<close>, the value \<^verbatim>\<open>NaN\<close>, and the sign of zero. The statements about
  binary64 results bound their inputs so that no operation leaves the range in which the
  model and the program agree.
\<close>

text \<open>
  \<open>expoFrom n x\<close> is the exponent \<open>e\<close> with \<open>2 powi e \<le> x < 2 powi (e + 1)\<close>, found in at
  most \<open>n\<close> halvings or doublings; \<open>binade\<close> is that exponent, not below the smallest exponent of
  a normal number.
\<close>

fun expoFrom :: "nat \<Rightarrow> real \<Rightarrow> int" where
  "expoFrom 0 x = 0"
| "expoFrom (Suc n) x =
    (if 2 \<le> x then expoFrom n (x / 2) + 1
     else if x < 1 then expoFrom n (x * 2) - 1
     else 0)"

definition binade :: "real \<Rightarrow> int" where
  "binade x = max (expoFrom 2200 \<bar>x\<bar>) (- 1022)"

text \<open>The integer nearest to \<open>x\<close>, the even one of two that are equally near.\<close>

definition roundEven :: "real \<Rightarrow> int" where
  "roundEven x =
    (let f = \<lfloor>x\<rfloor>
     in if x - of_int f < 1 / 2 then f
        else if 1 / 2 < x - of_int f then f + 1
        else if even f then f else f + 1)"

definition round64 :: "real \<Rightarrow> real" where
  "round64 x = of_int (roundEven (x / 2 powi (binade x - 52))) * 2 powi (binade x - 52)"

definition isDouble :: "real \<Rightarrow> bool" where
  "isDouble x = (round64 x = x)"

text \<open>Half the distance between 1 and the next binary64 number.\<close>

definition unitRoundoff :: real where
  "unitRoundoff = 2 powi (- 53)"

text \<open>The operators \<^verbatim>\<open>-\<close>, \<^verbatim>\<open>*\<close> and \<^verbatim>\<open>/\<close> of the program.\<close>

definition fsub :: "real \<Rightarrow> real \<Rightarrow> real" where
  "fsub a b = round64 (a - b)"

definition fmul :: "real \<Rightarrow> real \<Rightarrow> real" where
  "fmul a b = round64 (a * b)"

definition fdiv :: "real \<Rightarrow> real \<Rightarrow> real" where
  "fdiv a b = round64 (a / b)"

text \<open>
  \<^verbatim>\<open>calculateImageDimensions\<close> as executed. \<^verbatim>\<open>Math.min\<close> returns one of its arguments
  and does not round; the literal \<^verbatim>\<open>0.352778\<close> denotes the binary64 number nearest to
  it.
\<close>

definition calculateImageDimensions64 ::
  "real \<Rightarrow> real \<Rightarrow> real \<Rightarrow> real \<Rightarrow> ImageFit \<Rightarrow> Placement" where
  "calculateImageDimensions64 imgWidth imgHeight pageWidth pageHeight fitMode =
    (let margin = 10;
         availableWidth = fsub pageWidth (fmul margin 2);
         availableHeight = fsub pageHeight (fmul margin 2)
     in case fitMode of
          fit \<Rightarrow>
            (let scaleX = fdiv availableWidth imgWidth;
                 scaleY = fdiv availableHeight imgHeight;
                 scale = min scaleX scaleY;
                 width = fmul imgWidth scale;
                 height = fmul imgHeight scale
             in \<lparr>p_width = width, p_height = height,
                 p_x = fdiv (fsub pageWidth width) 2, p_y = fdiv (fsub pageHeight height) 2\<rparr>)
        | fill \<Rightarrow>
            \<lparr>p_width = availableWidth, p_height = availableHeight,
             p_x = margin, p_y = margin\<rparr>
        | original \<Rightarrow>
            (let pixelToMm = round64 (352778 / 1000000);
                 width = min (fmul imgWidth pixelToMm) availableWidth;
                 height = min (fmul imgHeight pixelToMm) availableHeight
             in \<lparr>p_width = width, p_height = height,
                 p_x = fdiv (fsub pageWidth width) 2, p_y = fdiv (fsub pageHeight height) 2\<rparr>))"

section \<open>External services\<close>

text \<open>
  The browser and the PDF library are not part of the repository. What the pipeline uses
  of the browser is collected in one record of functions, passed to every handler that
  calls them:
  \<^item> \<open>readAsDataURL\<close>: the \<^verbatim>\<open>FileReader\<close> behind \<^verbatim>\<open>fileToBase64\<close>; \<open>None\<close> is
    \<^verbatim>\<open>onerror\<close>;
  \<^item> \<open>decode\<close>: the \<^verbatim>\<open>Image\<close> element behind \<^verbatim>\<open>loadImage\<close>; \<open>None\<close> is
    \<^verbatim>\<open>onerror\<close>, \<open>Some (w, h)\<close> the pixel size of the loaded image;
  \<^item> \<open>getContext2d\<close>: whether \<^verbatim>\<open>canvas.getContext('2d')\<close> of a canvas of the given size
    returns a context (\<open>False\<close> is \<^verbatim>\<open>null\<close>);
  \<^item> \<open>toDataURL\<close>: the PNG data URL of the canvas after the image was drawn into it;
  \<^item> \<open>jspdf\<close>: \<^verbatim>\<open>window.jspdf\<close>; \<open>None\<close> when the library is not loaded.
  Every call returns: a service that never answers is not modelled.
\<close>

record File =
  file_name :: string
  file_type :: string

record HTMLImageElement =
  img_src :: string
  img_width :: nat
  img_height :: nat

subsection \<open>The document object\<close>

text \<open>
  A \<^verbatim>\<open>jsPDF\<close> object is modelled by what the pipeline does with it: the arguments of the
  constructor, the page size it reports, and the calls made on it since, oldest first.
\<close>

datatype pdf_call =
  AddPage
| AddImage string string real real real real

record jsPDF =
  pdf_orientation :: Orientation
  pdf_format :: PageSize
  pdf_pageWidth :: real
  pdf_pageHeight :: real
  pdf_calls :: "pdf_call list"

text \<open>
  The library: the page size in millimetres that a document of a given format and
  orientation reports, and for each of its entry points whether a call throws. The
  constructor is asked with its arguments, a method with the document and the call,
  \<^verbatim>\<open>output\<close> with the document.
\<close>

record Library =
  pageSizeOf :: "PageSize \<Rightarrow> Orientation \<Rightarrow> real \<times> real"
  constructorThrows :: "Orientation \<Rightarrow> PageSize \<Rightarrow> bool"
  callThrows :: "jsPDF \<Rightarrow> pdf_call \<Rightarrow> bool"
  outputThrows :: "jsPDF \<Rightarrow> bool"

record Browser =
  readAsDataURL :: "File \<Rightarrow> string option"
  decode :: "string \<Rightarrow> (nat \<times> nat) option"
  getContext2d :: "nat \<Rightarrow> nat \<Rightarrow> bool"
  toDataURL :: "HTMLImageElement \<Rightarrow> string"
  jspdf :: "Library option"

text \<open>A rejected promise or a thrown exception is an error value.\<close>

datatype error = ReadFailed | DecodeFailed | LibraryError

definition fileToBase64 :: "Browser \<Rightarrow> File \<Rightarrow> error + string" where
  "fileToBase64 env file =
    (case readAsDataURL env file of None \<Rightarrow> Inl ReadFailed | Some result \<Rightarrow> Inr result)"

definition loadImage :: "Browser \<Rightarrow> string \<Rightarrow> error + HTMLImageElement" where
  "loadImage env src =
    (case decode env src of
       None \<Rightarrow> Inl DecodeFailed
     | Some (w, h) \<Rightarrow> Inr \<lparr>img_src = src, img_width = w, img_height = h\<rparr>)"

text \<open>The document as the constructor returns it.\<close>

definition blankDocument :: "Library \<Rightarrow> Orientation \<Rightarrow> PageSize \<Rightarrow> jsPDF" where
  "blankDocument lib orient format =
    \<lparr>pdf_orientation = orient, pdf_format = format,
     pdf_pageWidth = fst (pageSizeOf lib format orient),
     pdf_pageHeight = snd (pageSizeOf lib format orient),
     pdf_calls = []\<rparr>"

definition new_jsPDF :: "Library \<Rightarrow> Orientation \<Rightarrow> PageSize \<Rightarrow> error + jsPDF" where
  "new_jsPDF lib orient format =
    (if constructorThrows lib orient format then Inl LibraryError
     else Inr (blankDocument lib orient format))"

definition addPage :: "Library \<Rightarrow> jsPDF \<Rightarrow> error + jsPDF" where
  "addPage lib pdf =
    (if callThrows lib pdf AddPage then Inl LibraryError
     else Inr (pdf\<lparr>pdf_calls := pdf_calls pdf @ [AddPage]\<rparr>))"

definition addImage ::
  "Library \<Rightarrow> jsPDF \<Rightarrow> string \<Rightarrow> string \<Rightarrow> real \<Rightarrow> real \<Rightarrow> real \<Rightarrow> real \<Rightarrow> error + jsPDF" where
  "addImage lib pdf imageData imageFormat px py w h =
    (if callThrows lib pdf (AddImage imageData imageFormat px py w h) then Inl LibraryError
     else Inr (pdf\<lparr>pdf_calls := pdf_calls pdf @ [AddImage imageData imageFormat px py w h]\<rparr>))"

text \<open>\<^verbatim>\<open>pdf.output('blob')\<close>: the blob of a document is the document.\<close>

definition outputBlob :: "Library \<Rightarrow> jsPDF \<Rightarrow> error + jsPDF" where
  "outputBlob lib pdf = (if outputThrows lib pdf then Inl LibraryError else Inr pdf)"

text \<open>
  The pages of a document, as the library builds them: the constructor yields the first
  page, \<^verbatim>\<open>addPage\<close> appends an empty page and makes it the current one, \<^verbatim>\<open>addImage\<close>
  puts the image on the current page. A page is the list of \<open>AddImage\<close> calls made while
  it was current.
\<close>

fun pagesFrom :: "pdf_call list list \<Rightarrow> pdf_call list \<Rightarrow> pdf_call list list" where
  "pagesFrom pages [] = pages"
| "pagesFrom pages (AddPage # cs) = pagesFrom (pages @ [[]]) cs"
| "pagesFrom pages (AddImage d f px py w h # cs) =
     pagesFrom (butlast pages @ [last pages @ [AddImage d f px py w h]]) cs"

definition pdf_pages :: "jsPDF \<Rightarrow> pdf_call list list" where
  "pdf_pages pdf = pagesFrom [[]] (pdf_calls pdf)"

subsection \<open>Object URLs, alerts and the console\<close>

text \<open>
  \<open>objectURLs\<close> maps every object URL that was created and not yet revoked to the blob
  it gives access to; the blob of a document is the document. URLs are numbered in the
  order of their creation. \<open>effects\<close> is the log of what the user and the console see,
  oldest first.
\<close>

datatype effect =
  Alert string
| ConsoleError string
| NewDocument Orientation PageSize
| Download nat

record World =
  objectURLs :: "nat \<rightharpoonup> jsPDF"
  nextURL :: nat
  effects :: "effect list"

definition emit :: "effect \<Rightarrow> World \<Rightarrow> World" where
  "emit e w = w\<lparr>effects := effects w @ [e]\<rparr>"

definition createObjectURL :: "jsPDF \<Rightarrow> World \<Rightarrow> nat \<times> World" where
  "createObjectURL blob w =
    (nextURL w, w\<lparr>objectURLs := (objectURLs w)(nextURL w \<mapsto> blob), nextURL := nextURL w + 1\<rparr>)"

definition revokeObjectURL :: "nat \<Rightarrow> World \<Rightarrow> World" where
  "revokeObjectURL url w = w\<lparr>objectURLs := (objectURLs w)(url := None)\<rparr>"

section \<open>The session and its handlers\<close>

text \<open>The four \<^verbatim>\<open>useState\<close> cells of \<^verbatim>\<open>App\<close>.\<close>

record Session =
  status :: AppStatus
  files :: "File list"
  options :: ConversionOptions
  pdfBlobUrl :: "nat option"

definition initialSession :: Session where
  "initialSession =
    \<lparr>status = IDLE, files = [],
     options = \<lparr>pageSize = a4, orientation = portrait, imageFit = fit\<rparr>,
     pdfBlobUrl = None\<rparr>"

definition initialWorld :: World where
  "initialWorld = \<lparr>objectURLs = Map.empty, nextURL = 0, effects = []\<rparr>"

definition filteredFiles :: "Session \<Rightarrow> File list" where
  "filteredFiles s =
    filter (\<lambda>f. List.member [''image/png'', ''image/jpeg'', ''image/webp''] (file_type f)) (files s)"

definition handleFilesAdded :: "File list \<Rightarrow> Session \<times> World \<Rightarrow> Session \<times> World" where
  "handleFilesAdded newFiles sw =
    (case sw of (s, w) \<Rightarrow> (s\<lparr>files := files s @ newFiles, status := FILES_SELECTED\<rparr>, w))"

text \<open>
  \<^verbatim>\<open>prev.filter((_, index) => index !== indexToRemove)\<close>: an index beyond the end removes
  nothing.
\<close>

fun removeAt :: "nat \<Rightarrow> 'a list \<Rightarrow> 'a list" where
  "removeAt n [] = []"
| "removeAt 0 (a # as) = as"
| "removeAt (Suc n) (a # as) = a # removeAt n as"

definition handleRemoveFile :: "nat \<Rightarrow> Session \<times> World \<Rightarrow> Session \<times> World" where
  "handleRemoveFile indexToRemove sw =
    (case sw of (s, w) \<Rightarrow>
      (let updatedFiles = removeAt indexToRemove (files s)
       in if length updatedFiles = 0
          then (s\<lparr>files := updatedFiles, status := IDLE\<rparr>, w)
          else (s\<lparr>files := updatedFiles\<rparr>, w)))"

text \<open>A \<^verbatim>\<open>Partial<ConversionOptions>\<close>: every field may be absent.\<close>

record PartialOptions =
  new_pageSize :: "PageSize option"
  new_orientation :: "Orientation option"
  new_imageFit :: "ImageFit option"

definition handleOptionChange :: "PartialOptions \<Rightarrow> Session \<times> World \<Rightarrow> Session \<times> World" where
  "handleOptionChange newOptions sw =
    (case sw of (s, w) \<Rightarrow>
      (s\<lparr>options :=
          \<lparr>pageSize = (case new_pageSize newOptions of None \<Rightarrow> pageSize (options s) | Some v \<Rightarrow> v),
           orientation =
             (case new_orientation newOptions of None \<Rightarrow> orientation (options s) | Some v \<Rightarrow> v),
           imageFit =
             (case new_imageFit newOptions of None \<Rightarrow> imageFit (options s) | Some v \<Rightarrow> v)\<rparr>\<rparr>,
       w))"

definition handleReset :: "Session \<times> World \<Rightarrow> Session \<times> World" where
  "handleReset sw =
    (case sw of (s, w) \<Rightarrow>
      (s\<lparr>files := [], pdfBlobUrl := None, status := IDLE\<rparr>,
       case pdfBlobUrl s of None \<Rightarrow> w | Some url \<Rightarrow> revokeObjectURL url w))"

text \<open>
  \<^verbatim>\<open>handleDownload\<close> builds a link to the object URL and clicks it. Neither the session
  nor the object URLs change; the file name of the download is not modelled.
\<close>

definition handleDownload :: "Session \<times> World \<Rightarrow> Session \<times> World" where
  "handleDownload sw =
    (case sw of (s, w) \<Rightarrow>
      (case pdfBlobUrl s of None \<Rightarrow> (s, w) | Some url \<Rightarrow> (s, emit (Download url) w)))"

subsection \<open>The conversion pipeline\<close>

text \<open>
  One iteration of the \<^verbatim>\<open>for\<close> loop of \<^verbatim>\<open>handleConvert\<close>, for the file at index \<open>i\<close>.
  The result carries the world in any case (what was logged stays logged when a later
  step throws), and either the error that was thrown or the document after the
  iteration. \<^verbatim>\<open>continue\<close> ends the iteration with the document as it is then.
\<close>

definition loopBody ::
  "Library \<Rightarrow> Browser \<Rightarrow> ConversionOptions \<Rightarrow> nat \<Rightarrow> File \<Rightarrow> jsPDF \<Rightarrow> World
    \<Rightarrow> World \<times> (error + jsPDF)" where
  "loopBody lib env opts i file pdf0 w =
    (case (if i > 0 then addPage lib pdf0 else Inr pdf0) of
       Inl e \<Rightarrow> (w, Inl e)
     | Inr pdf \<Rightarrow>
        (case fileToBase64 env file of
           Inl e \<Rightarrow> (w, Inl e)
         | Inr imageData \<Rightarrow>
            (let prepared =
               (if file_type file = ''image/jpeg'' then Inr (Some (imageData, ''JPEG''))
                else if file_type file = ''image/webp'' then
                  (case loadImage env imageData of
                     Inl e \<Rightarrow> Inl e
                   | Inr webpImg \<Rightarrow>
                       if \<not> getContext2d env (img_width webpImg) (img_height webpImg)
                       then Inr None
                       else Inr (Some (toDataURL env webpImg, ''PNG'')))
                else Inr (Some (imageData, ''PNG'')))
             in case prepared of
                  Inl e \<Rightarrow> (w, Inl e)
                | Inr None \<Rightarrow>
                    (emit (ConsoleError ''Could not get canvas context for WebP conversion'') w,
                     Inr pdf)
                | Inr (Some (imageData', imageFormat)) \<Rightarrow>
                    (case loadImage env imageData' of
                       Inl e \<Rightarrow> (w, Inl e)
                     | Inr img \<Rightarrow>
                         (let pageWidth = pdf_pageWidth pdf;
                              pageHeight = pdf_pageHeight pdf;
                              d = calculateImageDimensions64 (real (img_width img))
                                    (real (img_height img)) pageWidth pageHeight (imageFit opts)
                          in (w, addImage lib pdf imageData' imageFormat
                                   (p_x d) (p_y d) (p_width d) (p_height d)))))))"

text \<open>
  The loop runs over \<^verbatim>\<open>filteredFiles\<close> from index \<open>0\<close>; the recursion is on the files
  still to be processed, \<open>i\<close> being the index of the first of them.
\<close>

fun convertLoop ::
  "Library \<Rightarrow> Browser \<Rightarrow> ConversionOptions \<Rightarrow> nat \<Rightarrow> File list \<Rightarrow> jsPDF \<Rightarrow> World
    \<Rightarrow> World \<times> (error + jsPDF)" where
  "convertLoop lib env opts i [] pdf w = (w, Inr pdf)"
| "convertLoop lib env opts i (file # rest) pdf w =
    (case loopBody lib env opts i file pdf w of
       (w', Inl e) \<Rightarrow> (w', Inl e)
     | (w', Inr pdf') \<Rightarrow> convertLoop lib env opts (i + 1) rest pdf' w')"

text \<open>
  The body of the \<^verbatim>\<open>try\<close> block up to and including \<^verbatim>\<open>pdf.output('blob')\<close>: the
  document is created, the loop runs, the blob is produced.
\<close>

definition runPipeline ::
  "Library \<Rightarrow> Browser \<Rightarrow> ConversionOptions \<Rightarrow> File list \<Rightarrow> World \<Rightarrow> World \<times> (error + jsPDF)" where
  "runPipeline lib env opts fs w =
    (let w0 = emit (NewDocument (orientation opts) (pageSize opts)) w
     in case new_jsPDF lib (orientation opts) (pageSize opts) of
          Inl e \<Rightarrow> (w0, Inl e)
        | Inr pdf \<Rightarrow>
            (case convertLoop lib env opts 0 fs pdf w0 of
               (w', Inl e) \<Rightarrow> (w', Inl e)
             | (w', Inr pdf') \<Rightarrow> (w', outputBlob lib pdf')))"

text \<open>
  \<^verbatim>\<open>handleConvert\<close>. The status \<open>CONVERTING\<close> is set before the \<^verbatim>\<open>try\<close> statement and
  overwritten on both ways out of it; while it lasts no handler is offered to the user,
  so the handler is modelled as one step to its final state. The files and options it
  works on are those of the session in which it was called. Whatever is thrown inside
  the \<^verbatim>\<open>try\<close> block, by a rejected read or decoding or by the library, ends in the
  \<^verbatim>\<open>catch\<close> block.
\<close>

definition handleConvert :: "Browser \<Rightarrow> Session \<times> World \<Rightarrow> Session \<times> World" where
  "handleConvert env sw =
    (case sw of (s, w) \<Rightarrow>
      if length (filteredFiles s) = 0
      then (s, emit (Alert ''Please select at least one valid PNG, JPG, or WebP file.'') w)
      else
        (case jspdf env of
           None \<Rightarrow>
             (s, emit (Alert ''PDF generation library is not loaded. Please check your internet connection and try again.'') w)
         | Some lib \<Rightarrow>
             (let s1 = s\<lparr>status := CONVERTING\<rparr>
              in case runPipeline lib env (options s) (filteredFiles s) w of
                   (w', Inr blob) \<Rightarrow>
                     (case createObjectURL blob w' of
                        (url, w'') \<Rightarrow> (s1\<lparr>pdfBlobUrl := Some url, status := SUCCESS\<rparr>, w''))
                 | (w', Inl e) \<Rightarrow>
                     (s1\<lparr>status := FILES_SELECTED\<rparr>,
                      emit (Alert ''An error occurred during conversion. Please try again.'')
                        (emit (ConsoleError ''Error converting to PDF:'') w')))))"

subsection \<open>Which handler the user can reach\<close>

text \<open>
  \<^verbatim>\<open>renderContent\<close> decides by the status which component is on the screen, and so which
  handlers can be called: the uploader when \<open>IDLE\<close>, the file list with its remove
  buttons, option selectors and convert button when \<open>FILES_SELECTED\<close>, nothing but a
  spinner when \<open>CONVERTING\<close>, the download and convert-another buttons when \<open>SUCCESS\<close>.
  The browser may behave differently at every conversion, so the event carries it.
\<close>

datatype event =
  FilesAdded "File list"
| RemoveFile nat
| OptionChange PartialOptions
| Convert Browser
| DownloadClicked
| Reset

fun offered :: "AppStatus \<Rightarrow> event \<Rightarrow> bool" where
  "offered IDLE (FilesAdded newFiles) = True"
| "offered FILES_SELECTED (RemoveFile n) = True"
| "offered FILES_SELECTED (OptionChange newOptions) = True"
| "offered FILES_SELECTED (Convert env) = True"
| "offered SUCCESS DownloadClicked = True"
| "offered SUCCESS Reset = True"
| "offered st ev = False"

fun handle :: "event \<Rightarrow> Session \<times> World \<Rightarrow> Session \<times> World" where
  "handle (FilesAdded newFiles) sw = handleFilesAdded newFiles sw"
| "handle (RemoveFile n) sw = handleRemoveFile n sw"
| "handle (OptionChange newOptions) sw = handleOptionChange newOptions sw"
| "handle (Convert env) sw = handleConvert env sw"
| "handle DownloadClicked sw = handleDownload sw"
| "handle Reset sw = handleReset sw"

text \<open>The states of a session: it starts idle and proceeds by the handlers on offer.\<close>

inductive reachable :: "Session \<times> World \<Rightarrow> bool" where
  start: "reachable (initialSession, initialWorld)"
| step: "reachable sw \<Longrightarrow> offered (status (fst sw)) ev \<Longrightarrow> reachable (handle ev sw)"

section \<open>Notions used in the statements\<close>

text \<open>
  What can happen to one file in an iteration of the loop, read off the calls the
  iteration makes: the read is rejected; one of the decodings (of the data read, or, for
  a WebP file whose canvas gave a context, of the re-encoded PNG) is rejected; or the
  file is a WebP file that was read and decoded and whose canvas gives no context.
\<close>

definition readFails :: "Browser \<Rightarrow> File \<Rightarrow> bool" where
  "readFails env f = (readAsDataURL env f = None)"

definition decodeFails :: "Browser \<Rightarrow> File \<Rightarrow> bool" where
  "decodeFails env f =
    (case readAsDataURL env f of
       None \<Rightarrow> False
     | Some imageData \<Rightarrow>
         if file_type f = ''image/webp''
         then (case decode env imageData of
                 None \<Rightarrow> True
               | Some (w, h) \<Rightarrow>
                   getContext2d env w h \<and>
                   decode env
                     (toDataURL env \<lparr>img_src = imageData, img_width = w, img_height = h\<rparr>) = None)
         else decode env imageData = None)"


text \<open>
  What a file is to contribute to the document, stated on the services alone: the data
  that is placed, its format tag and the pixel size it decodes to. A PNG or JPEG file
  contributes the data read from it, tagged \<open>JPEG\<close> for a JPEG file and \<open>PNG\<close> otherwise; a
  WebP file contributes the PNG data of the canvas it was drawn into; a WebP file whose
  canvas gives no context, and a file whose read or decoding fails, contributes nothing.
\<close>

definition imageToPlace :: "Browser \<Rightarrow> File \<Rightarrow> (string \<times> string \<times> nat \<times> nat) option" where
  "imageToPlace env f =
    (case readAsDataURL env f of
       None \<Rightarrow> None
     | Some imageData \<Rightarrow>
         (case decode env imageData of
            None \<Rightarrow> None
          | Some (w, h) \<Rightarrow>
              if file_type f = ''image/webp''
              then (if getContext2d env w h
                    then (case decode env (toDataURL env
                                  \<lparr>img_src = imageData, img_width = w, img_height = h\<rparr>) of
                            None \<Rightarrow> None
                          | Some (w', h') \<Rightarrow>
                              Some (toDataURL env
                                      \<lparr>img_src = imageData, img_width = w, img_height = h\<rparr>,
                                    ''PNG'', w', h'))
                    else None)
              else Some (imageData,
                         if file_type f = ''image/jpeg'' then ''JPEG'' else ''PNG'', w, h)))"

text \<open>
  The page that belongs to a file: empty when the file contributes nothing, otherwise the
  one image it contributes, at the rectangle computed from its pixel size, the page size
  that the library reports for the options, and the fit mode.
\<close>

definition expectedPage ::
  "Library \<Rightarrow> Browser \<Rightarrow> ConversionOptions \<Rightarrow> File \<Rightarrow> pdf_call list" where
  "expectedPage lib env opts f =
    (case imageToPlace env f of
       None \<Rightarrow> []
     | Some (imageData, imageFormat, w, h) \<Rightarrow>
         [AddImage imageData imageFormat
            (p_x (calculateImageDimensions64 (real w) (real h)
                    (fst (pageSizeOf lib (pageSize opts) (orientation opts)))
                    (snd (pageSizeOf lib (pageSize opts) (orientation opts))) (imageFit opts)))
            (p_y (calculateImageDimensions64 (real w) (real h)
                    (fst (pageSizeOf lib (pageSize opts) (orientation opts)))
                    (snd (pageSizeOf lib (pageSize opts) (orientation opts))) (imageFit opts)))
            (p_width (calculateImageDimensions64 (real w) (real h)
                    (fst (pageSizeOf lib (pageSize opts) (orientation opts)))
                    (snd (pageSizeOf lib (pageSize opts) (orientation opts))) (imageFit opts)))
            (p_height (calculateImageDimensions64 (real w) (real h)
                    (fst (pageSizeOf lib (pageSize opts) (orientation opts)))
                    (snd (pageSizeOf lib (pageSize opts) (orientation opts))) (imageFit opts)))])"


text \<open>
  A document that differs from the one the constructor returned for the options \<open>opts\<close>
  by the calls made on it only.
\<close>

definition createdWith :: "Library \<Rightarrow> ConversionOptions \<Rightarrow> jsPDF \<Rightarrow> bool" where
  "createdWith lib opts pdf =
    (pdf\<lparr>pdf_calls := []\<rparr> = blankDocument lib (orientation opts) (pageSize opts))"

text \<open>
  The object URLs that are alive are those the session holds, and the session holds one
  only when the status is \<open>SUCCESS\<close>.
\<close>

definition owned :: "Session \<times> World \<Rightarrow> bool" where
  "owned sw =
    (dom (objectURLs (snd sw)) = set_option (pdfBlobUrl (fst sw)) \<and>
     (pdfBlobUrl (fst sw) \<noteq> None \<longrightarrow> status (fst sw) = SUCCESS))"

subsection \<open>Example inputs\<close>

text \<open>
  Files of every kind, one of them a file of type PNG whose data is not PNG data; a
  library that reports pages of 210 by 297 mm and never throws, and one that differs
  from it in that \<^verbatim>\<open>addImage\<close> throws on the data of that file; a browser in which
  reading \<^verbatim>\<open>broken.png\<close> fails, the data read from a file is its name, every decoding
  yields an 800 by 600 image, no canvas gives a context, and the first library is
  loaded; and the same browser with the second library.
\<close>

definition photoPng :: File where
  "photoPng = \<lparr>file_name = ''photo.png'', file_type = ''image/png''\<rparr>"

definition scanJpeg :: File where
  "scanJpeg = \<lparr>file_name = ''scan.jpg'', file_type = ''image/jpeg''\<rparr>"

definition pictureWebp :: File where
  "pictureWebp = \<lparr>file_name = ''picture.webp'', file_type = ''image/webp''\<rparr>"

definition brokenPng :: File where
  "brokenPng = \<lparr>file_name = ''broken.png'', file_type = ''image/png''\<rparr>"

definition mislabelledPng :: File where
  "mislabelledPng = \<lparr>file_name = ''mislabelled.png'', file_type = ''image/png''\<rparr>"

definition animationGif :: File where
  "animationGif = \<lparr>file_name = ''animation.gif'', file_type = ''image/gif''\<rparr>"

definition a4Library :: Library where
  "a4Library =
    \<lparr>pageSizeOf = (\<lambda>format orient. (210, 297)),
     constructorThrows = (\<lambda>orient format. False),
     callThrows = (\<lambda>pdf c. False),
     outputThrows = (\<lambda>pdf. False)\<rparr>"

definition strictLibrary :: Library where
  "strictLibrary =
    a4Library\<lparr>callThrows :=
      (\<lambda>pdf c. case c of
                 AddPage \<Rightarrow> False
               | AddImage imageData imageFormat px py w h \<Rightarrow> imageData = ''mislabelled.png'')\<rparr>"

definition exampleBrowser :: Browser where
  "exampleBrowser =
    \<lparr>readAsDataURL = (\<lambda>f. if file_name f = ''broken.png'' then None else Some (file_name f)),
     decode = (\<lambda>src. Some (800, 600)),
     getContext2d = (\<lambda>w h. False),
     toDataURL = (\<lambda>img. ''canvas''),
     jspdf = Some a4Library\<rparr>"

definition strictBrowser :: Browser where
  "strictBrowser = exampleBrowser\<lparr>jspdf := Some strictLibrary\<rparr>"

definition sessionWith :: "File list \<Rightarrow> Session" where
  "sessionWith fs = initialSession\<lparr>status := FILES_SELECTED, files := fs\<rparr>"

section \<open>The layout calculator in exact arithmetic\<close>












section \<open>Binary64 rounding\<close>

subsection \<open>Powers of two\<close>

lemma powi_le: "i \<le> j \<Longrightarrow> (2::real) powi i \<le> 2 powi j"
  by (intro power_int_increasing) simp_all

lemma powi_less: "i < j \<Longrightarrow> (2::real) powi i < 2 powi j"
  by (intro power_int_strict_increasing) simp_all

lemma powi_mult: "(2::real) powi i * 2 powi j = 2 powi (i + j)"
  by (simp add: power_int_add)

lemma powi_pos: "0 < (2::real) powi i"
  by simp

subsection \<open>The exponent of a number\<close>

lemma expoFrom_eq:
  "2 powi e \<le> x \<Longrightarrow> x < 2 powi (e + 1) \<Longrightarrow> nat \<bar>e\<bar> \<le> n \<Longrightarrow> expoFrom n x = e"
proof (induction n arbitrary: x e)
  case 0
  then show ?case by simp
next
  case (Suc n)
  have pos: "0 < x" using Suc.prems(1) powi_pos [of e] by linarith
  show ?case
  proof (cases "2 \<le> x")
    case True
    have "1 \<le> e"
    proof (rule ccontr)
      assume "\<not> 1 \<le> e"
      then have "e + 1 \<le> 1" by simp
      then have "(2::real) powi (e + 1) \<le> 2 powi 1" by (intro power_int_increasing) simp_all
      with Suc.prems(2) True show False by simp
    qed
    have a: "2 powi (e - 1) \<le> x / 2" using Suc.prems(1) by (simp add: power_int_diff)
    have b: "x / 2 < 2 powi (e - 1 + 1)" using Suc.prems(2) by (simp add: power_int_add)
    have c: "nat \<bar>e - 1\<bar> \<le> n" using Suc.prems(3) \<open>1 \<le> e\<close> by simp
    from Suc.IH [OF a b c] True show ?thesis by simp
  next
    case False
    show ?thesis
    proof (cases "x < 1")
      case True
      have "e \<le> - 1"
      proof (rule ccontr)
        assume "\<not> e \<le> - 1"
        then have "0 \<le> e" by simp
        then have "(2::real) powi 0 \<le> 2 powi e" by (intro power_int_increasing) simp_all
        with Suc.prems(1) True show False by simp
      qed
      have a: "2 powi (e + 1) \<le> x * 2" using Suc.prems(1) by (simp add: power_int_add)
      have b: "x * 2 < 2 powi (e + 1 + 1)" using Suc.prems(2) by (simp add: power_int_add)
      have c: "nat \<bar>e + 1\<bar> \<le> n" using Suc.prems(3) \<open>e \<le> - 1\<close> by simp
      from Suc.IH [OF a b c] True False show ?thesis by simp
    next
      case x1: False
      have "e \<le> 0"
      proof (rule ccontr)
        assume "\<not> e \<le> 0"
        then have "1 \<le> e" by simp
        then have "(2::real) powi 1 \<le> 2 powi e" by (intro power_int_increasing) simp_all
        with Suc.prems(1) False show False by simp
      qed
      moreover have "0 \<le> e"
      proof (rule ccontr)
        assume "\<not> 0 \<le> e"
        then have "e + 1 \<le> 0" by simp
        then have "(2::real) powi (e + 1) \<le> 2 powi 0" by (intro power_int_increasing) simp_all
        with Suc.prems(2) x1 show False by simp
      qed
      ultimately show ?thesis using False x1 by simp
    qed
  qed
qed

lemma binade_eq:
  assumes "2 powi e \<le> \<bar>x\<bar>" and "\<bar>x\<bar> < 2 powi (e + 1)" and "- 1022 \<le> e" and "e \<le> 2200"
  shows "binade x = e"
proof -
  have "nat \<bar>e\<bar> \<le> 2200" using assms(3,4) by simp
  from expoFrom_eq [OF assms(1,2) this] assms(3) show ?thesis by (simp add: binade_def)
qed

lemma round64_at:
  assumes "2 powi e \<le> \<bar>x\<bar>" and "\<bar>x\<bar> < 2 powi (e + 1)" and "- 1022 \<le> e" and "e \<le> 2200"
  shows "round64 x = of_int (roundEven (x / 2 powi (e - 52))) * 2 powi (e - 52)"
  by (simp add: round64_def binade_eq [OF assms])

text \<open>Every positive number lies between two consecutive powers of two.\<close>

lemma exponent_exists:
  assumes "0 < (x::real)"
  shows "\<exists>e. 2 powi e \<le> x \<and> x < 2 powi (e + 1)"
proof -
  define e where "e = \<lfloor>log 2 x\<rfloor>"
  have "2 powr (of_int e) \<le> x \<and> x < 2 powr (of_int e + 1)"
    using floor_log_eq_powr_iff [of x 2 e] assms by (simp add: e_def)
  then have "2 powi e \<le> x \<and> x < 2 powi (e + 1)"
    using powr_real_of_int' [of 2 e] powr_real_of_int' [of 2 "e + 1"] by simp
  then show ?thesis by blast
qed

lemma exponent_in_range:
  assumes "2 powi lo \<le> (x::real)" and "x < 2 powi hi"
  obtains e where "2 powi e \<le> x" and "x < 2 powi (e + 1)" and "lo \<le> e" and "e < hi"
proof -
  have "0 < x" using assms(1) powi_pos [of lo] by linarith
  from exponent_exists [OF this] obtain e where e: "2 powi e \<le> x" "x < 2 powi (e + 1)" by blast
  have "lo \<le> e"
  proof (rule ccontr)
    assume "\<not> lo \<le> e"
    then have "e + 1 \<le> lo" by simp
    then have "(2::real) powi (e + 1) \<le> 2 powi lo" by (intro power_int_increasing) simp_all
    with e(2) assms(1) show False by simp
  qed
  moreover have "e < hi"
  proof (rule ccontr)
    assume "\<not> e < hi"
    then have "hi \<le> e" by simp
    then have "(2::real) powi hi \<le> 2 powi e" by (intro power_int_increasing) simp_all
    with e(1) assms(2) show False by simp
  qed
  ultimately show ?thesis using e that by blast
qed

subsection \<open>Rounding to the nearest number\<close>

lemma roundEven_near: "\<bar>of_int (roundEven x) - x\<bar> \<le> 1 / 2"
  unfolding roundEven_def Let_def by (auto simp: abs_if) linarith+

lemma roundEven_ge_int: "of_int k \<le> x \<Longrightarrow> k \<le> roundEven x"
proof -
  assume "of_int k \<le> x"
  then have "k \<le> \<lfloor>x\<rfloor>" by (simp add: le_floor_iff)
  moreover have "\<lfloor>x\<rfloor> \<le> roundEven x" by (simp add: roundEven_def Let_def)
  ultimately show ?thesis by simp
qed

lemma roundEven_of_int: "roundEven (of_int k) = k"
  by (simp add: roundEven_def)

text \<open>
  In the range of the normal numbers a result is rounded with a relative error of at
  most \<open>unitRoundoff\<close>, and rounding never crosses a binary64 number: a binary64
  number that is not above the exact result is not above the rounded one.
\<close>

lemma round64_error:
  assumes "2 powi (- 1022) \<le> \<bar>x\<bar>" and "\<bar>x\<bar> < 2 powi 1024"
  shows "\<bar>round64 x - x\<bar> \<le> 2 powi (- 53) * \<bar>x\<bar>"
proof -
  from exponent_in_range [OF assms] obtain e where
    e: "2 powi e \<le> \<bar>x\<bar>" "\<bar>x\<bar> < 2 powi (e + 1)" "- 1022 \<le> e" "e < 1024" by blast
  define u :: real where "u = 2 powi (e - 52)"
  have u: "0 < u" by (simp add: u_def)
  have r: "round64 x = of_int (roundEven (x / u)) * u"
    using round64_at [OF e(1,2,3)] e(4) by (simp add: u_def)
  have "round64 x - x = (of_int (roundEven (x / u)) - x / u) * u"
    using u by (simp add: r left_diff_distrib)
  then have "\<bar>round64 x - x\<bar> = \<bar>of_int (roundEven (x / u)) - x / u\<bar> * \<bar>u\<bar>"
    by (simp only: abs_mult)
  also have "\<dots> = \<bar>of_int (roundEven (x / u)) - x / u\<bar> * u" using u by simp
  also have "\<dots> \<le> 1 / 2 * u" using roundEven_near [of "x / u"] u by (intro mult_right_mono) simp_all
  also have "\<dots> = 2 powi (- 53) * 2 powi e"
    by (simp add: u_def power_int_diff power_int_minus)
  also have "\<dots> \<le> 2 powi (- 53) * \<bar>x\<bar>" using e(1) by (intro mult_left_mono) simp_all
  finally show ?thesis .
qed


lemma round64_double_le:
  assumes y: "round64 y = y" "2 powi (- 1022) \<le> y" and yx: "y \<le> x" and x: "x < 2 powi 1024"
  shows "y \<le> round64 x"
proof -
  have x0: "2 powi (- 1022) \<le> \<bar>x\<bar>" "\<bar>x\<bar> < 2 powi 1024" using y(2) yx x by simp_all
  from exponent_in_range [OF x0] obtain e where
    e: "2 powi e \<le> \<bar>x\<bar>" "\<bar>x\<bar> < 2 powi (e + 1)" "- 1022 \<le> e" "e < 1024" by blast
  define u :: real where "u = 2 powi (e - 52)"
  have u: "0 < u" by (simp add: u_def)
  have xpos: "0 < x" using y(2) yx powi_pos [of "- 1022"] by linarith
  have r: "round64 x = of_int (roundEven (x / u)) * u"
    using round64_at [OF e(1,2,3)] e(4) by (simp add: u_def)
  show ?thesis
  proof (cases "2 powi e \<le> y")
    case True
    have ypos: "0 < y" using y(2) powi_pos [of "- 1022"] by linarith
    have "2 powi e \<le> \<bar>y\<bar>" "\<bar>y\<bar> < 2 powi (e + 1)" using True ypos yx e(2) xpos by simp_all
    from round64_at [OF this e(3)] e(4) y(1)
    have yk: "y = of_int (roundEven (y / u)) * u" by (simp add: u_def)
    define k where "k = roundEven (y / u)"
    have "of_int k * u \<le> x" using yk yx by (simp add: k_def)
    then have "of_int k \<le> x / u" using u by (simp add: pos_le_divide_eq)
    then have "k \<le> roundEven (x / u)" by (rule roundEven_ge_int)
    then have "of_int k * u \<le> of_int (roundEven (x / u)) * u"
      using u by (intro mult_right_mono) simp_all
    with yk r show ?thesis by (simp add: k_def)
  next
    case False
    have "2 powi e = of_int (2 ^ 52) * u" by (simp add: u_def power_int_diff)
    moreover have "2 powi e \<le> x" using e(1) xpos by simp
    ultimately have "of_int (2 ^ 52) \<le> x / u" using u by (simp add: pos_le_divide_eq)
    then have "2 ^ 52 \<le> roundEven (x / u)" by (rule roundEven_ge_int)
    then have "of_int (2 ^ 52) * u \<le> of_int (roundEven (x / u)) * u"
      using u by (intro mult_right_mono) simp_all
    then have "2 powi e \<le> round64 x" using r \<open>2 powi e = of_int (2 ^ 52) * u\<close> by simp
    with False show ?thesis by simp
  qed
qed

lemma unitRoundoff_pos: "0 < unitRoundoff"
  by (simp add: unitRoundoff_def)

lemma unitRoundoff_le_half: "unitRoundoff \<le> 1 / 2"
proof -
  have "(2::real) powi (- 53) \<le> 2 powi (- 1)" by (rule powi_le) simp
  then show ?thesis by (simp add: unitRoundoff_def power_int_minus)
qed

lemma round64_bounds:
  assumes "2 powi (- 1022) \<le> x" and "x < 2 powi 1024"
  shows "(1 - unitRoundoff) * x \<le> round64 x" and "round64 x \<le> (1 + unitRoundoff) * x"
proof -
  have "0 < x" using assms(1) powi_pos [of "- 1022"] by linarith
  then have "\<bar>x\<bar> = x" by simp
  with round64_error [of x] assms have e: "\<bar>round64 x - x\<bar> \<le> unitRoundoff * x"
    by (simp only: unitRoundoff_def)
  have "(1 - unitRoundoff) * x = x - unitRoundoff * x" by (simp add: left_diff_distrib)
  with e show "(1 - unitRoundoff) * x \<le> round64 x" by linarith
  have "(1 + unitRoundoff) * x = x + unitRoundoff * x" by (simp add: distrib_right)
  with e show "round64 x \<le> (1 + unitRoundoff) * x" by linarith
qed

lemma half_le_round64:
  assumes "2 powi (- 1022) \<le> x" and "x < 2 powi 1024"
  shows "x / 2 \<le> round64 x" and "round64 x \<le> 2 * x"
proof -
  define t where "t = unitRoundoff * x"
  have x: "0 < x" using assms(1) powi_pos [of "- 1022"] by linarith
  have "unitRoundoff * x \<le> 1 / 2 * x"
    using unitRoundoff_le_half x by (intro mult_right_mono) simp_all
  then have h: "t \<le> x / 2" by (simp add: t_def)
  have lo: "(1 - unitRoundoff) * x = x - t" by (simp add: left_diff_distrib t_def)
  have hi: "(1 + unitRoundoff) * x = x + t" by (simp add: distrib_right t_def)
  from round64_bounds (1) [OF assms] have "x - t \<le> round64 x" by (simp only: lo)
  with h show "x / 2 \<le> round64 x" by linarith
  from round64_bounds (2) [OF assms] have "round64 x \<le> x + t" by (simp only: hi)
  with h x show "round64 x \<le> 2 * x" by linarith
qed

text \<open>The binary64 numbers next to 20 are \<open>2 powi (- 48)\<close> apart.\<close>

lemma grid20: "(20::real) = of_int 5629499534213120 * 2 powi (- 48)"
  by (simp add: power_int_minus)

lemma double_above_20:
  assumes "round64 x = x" and "20 < x"
  shows "20 + 2 powi (- 48) \<le> x"
proof (cases "x < 32")
  case False
  have "(2::real) powi (- 48) \<le> 2 powi 0" by (intro power_int_increasing) simp_all
  with False show ?thesis by simp
next
  case True
  define c :: real where "c = 2 powi (- 48)"
  have c: "0 < c" by (simp add: c_def)
  have "2 powi 4 \<le> \<bar>x\<bar>" "\<bar>x\<bar> < 2 powi (4 + 1)" using True assms(2) by simp_all
  from round64_at [OF this] assms(1)
  have xk: "x = of_int (roundEven (x / c)) * c" by (simp add: c_def)
  define k where "k = roundEven (x / c)"
  have g: "20 = of_int 5629499534213120 * c" unfolding c_def by (rule grid20)
  from assms(2) have "of_int 5629499534213120 * c < of_int k * c"
    unfolding k_def using xk g by simp
  then have "(of_int 5629499534213120 :: real) < of_int k" using c by (simp only: mult_less_cancel_right_pos)
  then have "5629499534213120 < k" by (simp only: of_int_less_iff)
  then have "5629499534213120 + 1 \<le> k" by simp
  then have "(of_int (5629499534213120 + 1) :: real) \<le> of_int k" by (simp only: of_int_le_iff)
  then have "of_int (5629499534213120 + 1) * c \<le> of_int k * c"
    using c by (intro mult_right_mono) simp_all
  moreover have "of_int (5629499534213120 + 1) * c = 20 + c"
    using g by (simp add: distrib_right)
  ultimately show ?thesis using xk by (simp add: k_def c_def)
qed

subsection \<open>Evaluating a rounding\<close>

text \<open>
  \<open>round64_at\<close> computes a rounding once the exponent of the argument is supplied; the
  facts below are instances of it.
\<close>

lemma round64_0: "round64 0 = 0"
  by (simp add: round64_def roundEven_def)

lemmas round64_eval = roundEven_def Let_def power_int_minus

lemma margin2: "fmul 10 2 = 20"
  unfolding fmul_def by (subst round64_at [of 4]) (simp_all add: round64_eval)

lemma avail_210: "fsub 210 20 = 190"
  unfolding fsub_def by (subst round64_at [of 7]) (simp_all add: round64_eval)

lemma avail_297: "fsub 297 20 = 277"
  unfolding fsub_def by (subst round64_at [of 8]) (simp_all add: round64_eval)

lemma fit64_fields:
  "calculateImageDimensions64 iw ih pw ph fit =
     \<lparr>p_width = fmul iw (min (fdiv (fsub pw 20) iw) (fdiv (fsub ph 20) ih)),
      p_height = fmul ih (min (fdiv (fsub pw 20) iw) (fdiv (fsub ph 20) ih)),
      p_x = fdiv (fsub pw (fmul iw (min (fdiv (fsub pw 20) iw) (fdiv (fsub ph 20) ih)))) 2,
      p_y = fdiv (fsub ph (fmul ih (min (fdiv (fsub pw 20) iw) (fdiv (fsub ph 20) ih)))) 2\<rparr>"
  by (simp add: calculateImageDimensions64_def Let_def margin2)

text \<open>
  The modes \<open>fill\<close> and \<open>original\<close> as executed: the expressions of the source with the
  program's operators.
\<close>

lemma fill64_fields:
  "calculateImageDimensions64 iw ih pw ph fill =
     \<lparr>p_width = fsub pw 20, p_height = fsub ph 20, p_x = 10, p_y = 10\<rparr>"
  by (simp add: calculateImageDimensions64_def Let_def margin2)

lemma original64_fields:
  "calculateImageDimensions64 iw ih pw ph original =
     \<lparr>p_width = min (fmul iw (round64 (352778 / 1000000))) (fsub pw 20),
      p_height = min (fmul ih (round64 (352778 / 1000000))) (fsub ph 20),
      p_x = fdiv (fsub pw (min (fmul iw (round64 (352778 / 1000000))) (fsub pw 20))) 2,
      p_y = fdiv (fsub ph (min (fmul ih (round64 (352778 / 1000000))) (fsub ph 20))) 2\<rparr>"
  by (simp add: calculateImageDimensions64_def Let_def margin2)

lemma powi31: "(2::real) powi 31 = 2 ^ 31"
  by simp

lemma round64_1: "round64 1 = 1"
  by (subst round64_at [of 0]) (simp_all add: round64_eval)

lemma isDouble_210: "isDouble 210"
  unfolding isDouble_def by (subst round64_at [of 7]) (simp_all add: round64_eval)

lemma isDouble_297: "isDouble 297"
  unfolding isDouble_def by (subst round64_at [of 8]) (simp_all add: round64_eval)

lemma isDouble_100: "isDouble 100"
  unfolding isDouble_def by (subst round64_at [of 6]) (simp_all add: round64_eval)

lemma isDouble_50: "isDouble 50"
  unfolding isDouble_def by (subst round64_at [of 5]) (simp_all add: round64_eval)

lemma fit64_800_600_a4:
  "calculateImageDimensions64 800 600 210 297 fit
     = \<lparr>p_width = 190, p_height = 285 / 2, p_x = 10, p_y = 309 / 4\<rparr>"
proof -
  have sx: "fdiv 190 800 = 4278419646001971 / 18014398509481984"
    unfolding fdiv_def by (subst round64_at [of "- 3"]) (simp_all add: round64_eval)
  have sy: "fdiv 277 600 = 2079161827969379 / 4503599627370496"
    unfolding fdiv_def by (subst round64_at [of "- 2"]) (simp_all add: round64_eval)
  have w: "fmul 800 (4278419646001971 / 18014398509481984) = 190"
    unfolding fmul_def by (subst round64_at [of 7]) (simp_all add: round64_eval)
  have h: "fmul 600 (4278419646001971 / 18014398509481984) = 285 / 2"
    unfolding fmul_def by (subst round64_at [of 7]) (simp_all add: round64_eval)
  have x1: "fsub 210 190 = 20"
    unfolding fsub_def by (subst round64_at [of 4]) (simp_all add: round64_eval)
  have x2: "fdiv 20 2 = 10"
    unfolding fdiv_def by (subst round64_at [of 3]) (simp_all add: round64_eval)
  have y1: "fsub 297 (285 / 2) = 309 / 2"
    unfolding fsub_def by (subst round64_at [of 7]) (simp_all add: round64_eval)
  have y2: "fdiv (309 / 2) 2 = 309 / 4"
    unfolding fdiv_def by (subst round64_at [of 6]) (simp_all add: round64_eval)
  show ?thesis by (simp add: fit64_fields avail_210 avail_297 sx sy w h x1 x2 y1 y2)
qed

lemma fit64_2556_1179_a4:
  "p_width (calculateImageDimensions64 2556 1179 210 297 fit) = 190 \<and>
   p_height (calculateImageDimensions64 2556 1179 210 297 fit) = 6167176206274849 / 70368744177664"
proof -
  have sx: "fdiv 190 2556 = 5356393923007163 / 72057594037927936"
    unfolding fdiv_def by (subst round64_at [of "- 4"]) (simp_all add: round64_eval)
  have sy: "fdiv 277 1179 = 4232390489505097 / 18014398509481984"
    unfolding fdiv_def by (subst round64_at [of "- 3"]) (simp_all add: round64_eval)
  have w: "fmul 2556 (5356393923007163 / 72057594037927936) = 190"
    unfolding fmul_def by (subst round64_at [of 7]) (simp_all add: round64_eval)
  have h: "fmul 1179 (5356393923007163 / 72057594037927936) = 6167176206274849 / 70368744177664"
    unfolding fmul_def by (subst round64_at [of 6]) (simp_all add: round64_eval)
  show ?thesis by (simp add: fit64_fields avail_210 avail_297 sx sy w h)
qed

lemma fit64_20mm_page:
  "p_width (calculateImageDimensions64 800 600 20 297 fit) = 0 \<and>
   p_height (calculateImageDimensions64 800 600 20 297 fit) = 0"
proof -
  have a: "fsub 20 20 = 0" by (simp add: fsub_def round64_0)
  have sx: "fdiv 0 800 = 0" by (simp add: fdiv_def round64_0)
  have sy: "fdiv 277 600 = 2079161827969379 / 4503599627370496"
    unfolding fdiv_def by (subst round64_at [of "- 2"]) (simp_all add: round64_eval)
  have w: "fmul 800 0 = 0" "fmul 600 0 = 0" by (simp_all add: fmul_def round64_0)
  show ?thesis by (simp add: fit64_fields a avail_297 sx sy w)
qed

section \<open>The layout calculator in binary64 arithmetic\<close>

subsection \<open>Error bounds for the \<open>fit\<close> mode\<close>

text \<open>The scale of one axis: the rounded quotient of an available size by an image size.\<close>

lemma scale_range:
  assumes a: "2 powi (- 49) \<le> a" "a \<le> 2 powi 32" and iw: "1 \<le> iw" "iw \<le> 2 powi 31"
  shows "(1 - unitRoundoff) * (a / iw) \<le> fdiv a iw"
    and "fdiv a iw \<le> (1 + unitRoundoff) * (a / iw)"
    and "2 powi (- 81) \<le> fdiv a iw" and "fdiv a iw \<le> 2 powi 33"
proof -
  have apos: "0 < a" using a(1) powi_pos [of "- 49"] by linarith
  have iwpos: "0 < iw" using iw(1) by simp
  have qlo: "2 powi (- 80) \<le> a / iw"
  proof -
    have "2 powi (- 80) * iw \<le> 2 powi (- 80) * 2 powi 31"
      using iw(2) powi_pos [of "- 80"] by (intro mult_left_mono) simp_all
    also have "\<dots> = 2 powi (- 49)" by (simp only: powi_mult) simp
    also note a(1)
    finally show ?thesis using iwpos by (simp only: pos_le_divide_eq)
  qed
  have qhi: "a / iw \<le> 2 powi 32"
  proof -
    have "a / iw \<le> a / 1" using iw(1) apos by (intro divide_left_mono) simp_all
    also have "\<dots> = a" by simp
    also note a(2)
    finally show ?thesis .
  qed
  have n1: "2 powi (- 1022) \<le> a / iw"
    using qlo powi_le [of "- 1022" "- 80"] by linarith
  have n2: "a / iw < 2 powi 1024"
    using qhi powi_less [of 32 1024] by linarith
  from round64_bounds [OF n1 n2]
  show "(1 - unitRoundoff) * (a / iw) \<le> fdiv a iw"
    and "fdiv a iw \<le> (1 + unitRoundoff) * (a / iw)"
    by (simp_all only: fdiv_def)
  note h = half_le_round64 [OF n1 n2]
  have "(2::real) powi (- 81) * 2 = 2 powi (- 81) * 2 powi 1" by simp
  also have "\<dots> = 2 powi (- 80)" by (simp only: powi_mult) simp
  finally have "(2::real) powi (- 81) = 2 powi (- 80) / 2" by simp
  moreover have "2 powi (- 80) / 2 \<le> a / iw / 2" by (rule divide_right_mono [OF qlo]) simp
  ultimately have "2 powi (- 81) \<le> a / iw / 2" by (simp only:)
  then show "2 powi (- 81) \<le> fdiv a iw" unfolding fdiv_def using h(1) by (rule order_trans)
  have "2 * (2::real) powi 32 = 2 powi 1 * 2 powi 32" by simp
  also have "\<dots> = 2 powi 33" by (simp only: powi_mult) simp
  finally have "2 * (2::real) powi 32 = 2 powi 33" .
  moreover have "2 * (a / iw) \<le> 2 * 2 powi 32" by (rule mult_left_mono [OF qhi]) simp
  ultimately have "2 * (a / iw) \<le> 2 powi 33" by (simp only:)
  with h(2) show "fdiv a iw \<le> 2 powi 33" unfolding fdiv_def by (rule order_trans)
qed

text \<open>The product of an image size and the scale.\<close>

lemma product_bounds:
  assumes s: "2 powi (- 81) \<le> s" "s \<le> 2 powi 33" and iw: "1 \<le> iw" "iw \<le> 2 powi 31"
  shows "(1 - unitRoundoff) * (iw * s) \<le> fmul iw s"
    and "fmul iw s \<le> (1 + unitRoundoff) * (iw * s)"
    and "0 < fmul iw s"
proof -
  have spos: "0 < s" using s(1) powi_pos [of "- 81"] by linarith
  have "1 * s \<le> iw * s" using iw(1) spos by (intro mult_right_mono) simp_all
  then have lo: "2 powi (- 81) \<le> iw * s" using s(1) by linarith
  then have n1: "2 powi (- 1022) \<le> iw * s" using powi_le [of "- 1022" "- 81"] by linarith
  have "iw * s \<le> 2 powi 31 * 2 powi 33" using iw s spos by (intro mult_mono) simp_all
  also have "\<dots> = 2 powi 64" by (simp only: powi_mult) simp
  also have "\<dots> < 2 powi 1024" by (rule powi_less) simp
  finally have n2: "iw * s < 2 powi 1024" .
  from round64_bounds [OF n1 n2]
  show "(1 - unitRoundoff) * (iw * s) \<le> fmul iw s"
    and "fmul iw s \<le> (1 + unitRoundoff) * (iw * s)"
    by (simp_all only: fmul_def)
  have "0 < iw * s" using lo powi_pos [of "- 81"] by linarith
  with half_le_round64 (1) [OF n1 n2] show "0 < fmul iw s" unfolding fmul_def by linarith
qed

text \<open>The available size of a page dimension above 20.\<close>

lemma available_range:
  assumes "round64 pw = pw" and "20 < pw" and "pw \<le> 2 powi 31"
  shows "2 powi (- 49) \<le> fsub pw 20" and "fsub pw 20 \<le> 2 powi 32"
proof -
  have lo: "2 powi (- 48) \<le> pw - 20" using double_above_20 [OF assms(1,2)] by linarith
  have hi: "pw - 20 \<le> 2 powi 31" using assms(3) by linarith
  have n1: "2 powi (- 1022) \<le> pw - 20" using lo powi_le [of "- 1022" "- 48"] by linarith
  have n2: "pw - 20 < 2 powi 1024" using hi powi_less [of 31 1024] by linarith
  note h = half_le_round64 [OF n1 n2]
  have "(2::real) powi (- 49) * 2 = 2 powi (- 49) * 2 powi 1" by simp
  also have "\<dots> = 2 powi (- 48)" by (simp only: powi_mult) simp
  finally have "(2::real) powi (- 49) = 2 powi (- 48) / 2" by simp
  moreover have "2 powi (- 48) / 2 \<le> (pw - 20) / 2" by (rule divide_right_mono [OF lo]) simp
  ultimately have "2 powi (- 49) \<le> (pw - 20) / 2" by (simp only:)
  then show "2 powi (- 49) \<le> fsub pw 20" unfolding fsub_def using h(1) by (rule order_trans)
  have "2 * (2::real) powi 31 = 2 powi 1 * 2 powi 31" by simp
  also have "\<dots> = 2 powi 32" by (simp only: powi_mult) simp
  finally have "2 * (2::real) powi 31 = 2 powi 32" .
  moreover have "2 * (pw - 20) \<le> 2 * 2 powi 31" by (rule mult_left_mono [OF hi]) simp
  ultimately have "2 * (pw - 20) \<le> 2 powi 32" by (simp only:)
  with h(2) show "fsub pw 20 \<le> 2 powi 32" unfolding fsub_def by (rule order_trans)
qed

lemma touch:
  assumes a: "2 powi (- 49) \<le> a" "a \<le> 2 powi 32" and iw: "1 \<le> iw" "iw \<le> 2 powi 31"
  shows "\<bar>fmul iw (fdiv a iw) - a\<bar> \<le> 4 * unitRoundoff * a"
proof -
  define u where "u = unitRoundoff"
  define S where "S = fdiv a iw"
  define P where "P = iw * S"
  define W where "W = fmul iw S"
  define t where "t = u * a"
  have u: "0 < u" "u \<le> 1 / 2" using unitRoundoff_pos unitRoundoff_le_half by (simp_all add: u_def)
  have apos: "0 < a" using a(1) powi_pos [of "- 49"] by linarith
  have iwpos: "0 < iw" using iw(1) by simp
  have t: "0 \<le> t" using u apos by (simp add: t_def)
  note sc = scale_range [OF a iw, folded S_def u_def]
  have iq: "iw * (a / iw) = a" using iwpos by simp
  have "iw * ((1 - u) * (a / iw)) \<le> iw * S" using sc(1) iwpos by (intro mult_left_mono) simp_all
  moreover have "iw * ((1 - u) * (a / iw)) = (1 - u) * (iw * (a / iw))" by (simp only: mult.left_commute)
  ultimately have "(1 - u) * a \<le> P" by (simp only: iq P_def)
  then have Plo: "a - t \<le> P" by (simp add: left_diff_distrib t_def)
  have "iw * S \<le> iw * ((1 + u) * (a / iw))" using sc(2) iwpos by (intro mult_left_mono) simp_all
  moreover have "iw * ((1 + u) * (a / iw)) = (1 + u) * (iw * (a / iw))" by (simp only: mult.left_commute)
  ultimately have "P \<le> (1 + u) * a" by (simp only: iq P_def)
  then have Phi: "P \<le> a + t" by (simp add: distrib_right t_def)
  note pr = product_bounds [OF sc(3,4) iw, folded W_def P_def u_def]
  define uP where "uP = u * P"
  define ut where "ut = u * t"
  have Wlo: "P - uP \<le> W" using pr(1) by (simp add: left_diff_distrib uP_def)
  have Whi: "W \<le> P + uP" using pr(2) by (simp add: distrib_right uP_def)
  have "u * P \<le> u * (a + t)" using Phi u by (intro mult_left_mono) simp_all
  then have uP: "uP \<le> t + ut" by (simp add: uP_def distrib_left t_def ut_def)
  have "u * t \<le> 1 / 2 * t" using u t by (intro mult_right_mono) simp_all
  then have ut: "ut \<le> t / 2" by (simp add: ut_def)
  have "\<bar>W - a\<bar> \<le> 4 * t" using Plo Phi Wlo Whi uP ut t by linarith
  then show ?thesis by (simp add: W_def S_def t_def u_def)
qed

lemma aspect:
  assumes s: "2 powi (- 81) \<le> s" "s \<le> 2 powi 33"
    and iw: "1 \<le> iw" "iw \<le> 2 powi 31" and ih: "1 \<le> ih" "ih \<le> 2 powi 31"
  shows "\<bar>fmul iw s / fmul ih s - iw / ih\<bar> \<le> 4 * unitRoundoff * (iw / ih)"
proof -
  define u where "u = unitRoundoff"
  define A where "A = iw * s"
  define B where "B = ih * s"
  define W where "W = fmul iw s"
  define H where "H = fmul ih s"
  have u: "0 < u" "u \<le> 1 / 2" using unitRoundoff_pos unitRoundoff_le_half by (simp_all add: u_def)
  have spos: "0 < s" using s(1) powi_pos [of "- 81"] by linarith
  have A: "0 < A" and B: "0 < B" using iw(1) ih(1) spos by (simp_all add: A_def B_def)
  note w = product_bounds [OF s iw, folded W_def A_def u_def]
  note h = product_bounds [OF s ih, folded H_def B_def u_def]
  have AB: "A / B = iw / ih" using spos by (simp add: A_def B_def)
  have k1: "(1 + u) \<le> (1 + 4 * u) * (1 - u)"
  proof -
    have "u * u \<le> 1 / 2 * u" using u by (intro mult_right_mono) simp_all
    moreover have "(1 + 4 * u) * (1 - u) = 1 + 3 * u - 4 * (u * u)" by (simp add: algebra_simps)
    ultimately show ?thesis by linarith
  qed
  have k2: "(1 - 4 * u) * (1 + u) \<le> 1 - u"
  proof -
    have "0 \<le> u * u" by simp
    moreover have "(1 - 4 * u) * (1 + u) = 1 - 3 * u - 4 * (u * u)" by (simp add: algebra_simps)
    ultimately show ?thesis using u(1) by linarith
  qed
  have up: "W * B \<le> (1 + 4 * u) * A * H"
  proof -
    have "W * B \<le> ((1 + u) * A) * B" using w(2) B by (intro mult_right_mono) simp_all
    also have "\<dots> = (1 + u) * (A * B)" by (simp only: mult.assoc)
    also have "\<dots> \<le> ((1 + 4 * u) * (1 - u)) * (A * B)"
      using k1 A B by (intro mult_right_mono) simp_all
    also have "\<dots> = ((1 + 4 * u) * A) * ((1 - u) * B)" by (simp only: mult_ac)
    also have "\<dots> \<le> ((1 + 4 * u) * A) * H" using h(1) A u by (intro mult_left_mono) simp_all
    finally show ?thesis .
  qed
  have dn: "(1 - 4 * u) * A * H \<le> W * B"
  proof (cases "0 \<le> 1 - 4 * u")
    case True
    have "((1 - 4 * u) * A) * H \<le> ((1 - 4 * u) * A) * ((1 + u) * B)"
      using h(2) A True by (intro mult_left_mono) simp_all
    also have "\<dots> = ((1 - 4 * u) * (1 + u)) * (A * B)" by (simp only: mult_ac)
    also have "\<dots> \<le> (1 - u) * (A * B)" using k2 A B by (intro mult_right_mono) simp_all
    also have "\<dots> = ((1 - u) * A) * B" by (simp only: mult.assoc)
    also have "\<dots> \<le> W * B" using w(1) B by (intro mult_right_mono) simp_all
    finally show ?thesis .
  next
    case False
    have "(1 - 4 * u) * A * H \<le> 0"
      using False A h(3) by (simp add: H_def mult_le_0_iff zero_le_mult_iff)
    moreover have "0 \<le> W * B" using w(3) B by (simp add: W_def)
    ultimately show ?thesis by linarith
  qed
  have Hpos: "0 < H" using h(3) by (simp add: H_def)
  have hi: "W / H \<le> (1 + 4 * u) * (A / B)"
  proof -
    have "W / H \<le> (1 + 4 * u) * A / B"
      using up Hpos B by (simp add: field_simps)
    then show ?thesis by simp
  qed
  have lo: "(1 - 4 * u) * (A / B) \<le> W / H"
  proof -
    have "(1 - 4 * u) * A / B \<le> W / H"
      using dn Hpos B by (simp add: field_simps)
    then show ?thesis by simp
  qed
  define r where "r = A / B"
  define g where "g = u * r"
  have "W / H \<le> r + 4 * g" using hi by (simp add: r_def g_def algebra_simps)
  moreover have "r - 4 * g \<le> W / H" using lo by (simp add: r_def g_def algebra_simps)
  ultimately have "\<bar>W / H - r\<bar> \<le> 4 * g" by linarith
  then show ?thesis by (simp add: W_def H_def r_def g_def AB u_def)
qed

subsection \<open>The aspect ratio\<close>

text \<open>
  C1. As stated, the \<open>fit\<close> rectangle has exactly the aspect ratio of the image, for all
  positive dimensions. The program computes in binary64, where that fails for ordinary
  sizes, and on a page that is exactly 20 mm wide the rectangle is 0 by 0 and has no
  aspect ratio at all. The claim as amended: for image dimensions from 1 to \<open>2 ^ 31\<close> and
  page dimensions that are binary64 numbers above 20 and up to \<open>2 ^ 31\<close>, the rectangle
  has the width \<open>imageWidth * scale\<close> and the height \<open>imageHeight * scale\<close> for the scale
  \<open>min ((pageWidth - 20) / imageWidth) ((pageHeight - 20) / imageHeight)\<close>, and
  \<open>x = (pageWidth - width) / 2\<close> and \<open>y = (pageHeight - height) / 2\<close>, every operation
  being the program's rounded one; and its aspect ratio differs from the image's by at
  most the fraction \<open>4 * unitRoundoff\<close>, which is \<open>2 powi (- 51)\<close>, of the image's.
\<close>

theorem fit_aspect_within_rounding:
  assumes "1 \<le> iw" and "iw \<le> 2 ^ 31" and "1 \<le> ih" and "ih \<le> 2 ^ 31"
    and "isDouble pw" and "20 < pw" and "pw \<le> 2 ^ 31"
    and "isDouble ph" and "20 < ph" and "ph \<le> 2 ^ 31"
  shows "p_width (calculateImageDimensions64 iw ih pw ph fit)
           = fmul iw (min (fdiv (fsub pw 20) iw) (fdiv (fsub ph 20) ih)) \<and>
         p_height (calculateImageDimensions64 iw ih pw ph fit)
           = fmul ih (min (fdiv (fsub pw 20) iw) (fdiv (fsub ph 20) ih)) \<and>
         p_x (calculateImageDimensions64 iw ih pw ph fit)
           = fdiv (fsub pw (p_width (calculateImageDimensions64 iw ih pw ph fit))) 2 \<and>
         p_y (calculateImageDimensions64 iw ih pw ph fit)
           = fdiv (fsub ph (p_height (calculateImageDimensions64 iw ih pw ph fit))) 2 \<and>
         \<bar>p_width (calculateImageDimensions64 iw ih pw ph fit)
            / p_height (calculateImageDimensions64 iw ih pw ph fit) - iw / ih\<bar>
           \<le> 4 * unitRoundoff * (iw / ih)"
proof -
  define s where "s = min (fdiv (fsub pw 20) iw) (fdiv (fsub ph 20) ih)"
  have iw: "1 \<le> iw" "iw \<le> 2 powi 31" and ih: "1 \<le> ih" "ih \<le> 2 powi 31"
    using assms(1-4) by (simp_all only: powi31)
  have pw: "round64 pw = pw" "20 < pw" "pw \<le> 2 powi 31"
    using assms(5-7) by (simp_all only: powi31 isDouble_def)
  have ph: "round64 ph = ph" "20 < ph" "ph \<le> 2 powi 31"
    using assms(8-10) by (simp_all only: powi31 isDouble_def)
  note sx = scale_range (3,4) [OF available_range [OF pw] iw]
  note sy = scale_range (3,4) [OF available_range [OF ph] ih]
  have s: "2 powi (- 81) \<le> s" "s \<le> 2 powi 33"
    using sx sy by (simp_all add: s_def min_def)
  from aspect [OF s iw ih]
  have "\<bar>fmul iw s / fmul ih s - iw / ih\<bar> \<le> 4 * unitRoundoff * (iw / ih)" .
  then show ?thesis by (simp add: fit64_fields s_def)
qed

text \<open>
  The scenario of the specification: an 800 by 600 image on an A4 page of 210 by 297 mm.
\<close>

theorem fit_aspect_within_rounding_witness:
  "\<bar>p_width (calculateImageDimensions64 800 600 210 297 fit)
      / p_height (calculateImageDimensions64 800 600 210 297 fit) - 800 / 600\<bar>
     \<le> 4 * unitRoundoff * (800 / 600) \<and>
   calculateImageDimensions64 800 600 210 297 fit
     = \<lparr>p_width = 190, p_height = 285 / 2, p_x = 10, p_y = 309 / 4\<rparr>"
proof -
  have h: "(1::real) \<le> 800" "(800::real) \<le> 2 ^ 31" "(1::real) \<le> 600" "(600::real) \<le> 2 ^ 31"
    "(20::real) < 210" "(210::real) \<le> 2 ^ 31" "(20::real) < 297" "(297::real) \<le> 2 ^ 31"
    by simp_all
  from fit_aspect_within_rounding [OF h(1-4) isDouble_210 h(5,6) isDouble_297 h(7,8)]
  have "\<bar>p_width (calculateImageDimensions64 800 600 210 297 fit)
      / p_height (calculateImageDimensions64 800 600 210 297 fit) - 800 / 600\<bar>
     \<le> 4 * unitRoundoff * (800 / 600)" by blast
  with fit64_800_600_a4 show ?thesis by blast
qed

text \<open>
  The inputs at which C1 fails as stated. A 2556 by 1179 image on the 210 by 297 mm page
  gets the width 190 and a height whose quotient is not 2556 / 1179, neither as a real
  number nor when both quotients are rounded as the program rounds them. An 800 by 600
  image on a page 20 mm wide gets a rectangle of width 0 and height 0.
\<close>

theorem fit_aspect_not_exact:
  "p_width (calculateImageDimensions64 2556 1179 210 297 fit) = 190 \<and>
   p_height (calculateImageDimensions64 2556 1179 210 297 fit)
     = 6167176206274849 / 70368744177664 \<and>
   p_width (calculateImageDimensions64 2556 1179 210 297 fit)
     / p_height (calculateImageDimensions64 2556 1179 210 297 fit) \<noteq> 2556 / 1179 \<and>
   fdiv (p_width (calculateImageDimensions64 2556 1179 210 297 fit))
        (p_height (calculateImageDimensions64 2556 1179 210 297 fit)) \<noteq> fdiv 2556 1179 \<and>
   p_width (calculateImageDimensions64 800 600 20 297 fit) = 0 \<and>
   p_height (calculateImageDimensions64 800 600 20 297 fit) = 0"
proof -
  have q1: "fdiv 190 (6167176206274849 / 70368744177664) = 2440882240788589 / 1125899906842624"
    unfolding fdiv_def by (subst round64_at [of 1]) (simp_all add: round64_eval)
  have q2: "fdiv 2556 1179 = 4881764481577179 / 2251799813685248"
    unfolding fdiv_def by (subst round64_at [of 1]) (simp_all add: round64_eval)
  show ?thesis by (simp add: fit64_2556_1179_a4 fit64_20mm_page q1 q2)
qed

subsection \<open>Touching the available area\<close>

text \<open>
  C10. As stated, the \<open>fit\<close> rectangle is exactly as wide or exactly as high as the
  available area. In binary64 the product \<open>imageWidth * (availableWidth / imageWidth)\<close>
  need not give \<open>availableWidth\<close> back. The claim as amended: for image dimensions from
  1 to \<open>2 ^ 31\<close> and page dimensions that are binary64 numbers above 20 and up to
  \<open>2 ^ 31\<close>, the width differs from the available width, or the height from the
  available height, by at most the fraction \<open>4 * unitRoundoff\<close> of it; and nothing keeps
  a small image at its size: an image whose dimensions are binary64 numbers and that
  fits into the available area comes out at least as large as it went in.
\<close>

theorem fit_touches_within_rounding:
  assumes "1 \<le> iw" and "iw \<le> 2 ^ 31" and "1 \<le> ih" and "ih \<le> 2 ^ 31"
    and "isDouble pw" and "20 < pw" and "pw \<le> 2 ^ 31"
    and "isDouble ph" and "20 < ph" and "ph \<le> 2 ^ 31"
  shows "(\<bar>p_width (calculateImageDimensions64 iw ih pw ph fit) - fsub pw 20\<bar>
            \<le> 4 * unitRoundoff * fsub pw 20 \<or>
          \<bar>p_height (calculateImageDimensions64 iw ih pw ph fit) - fsub ph 20\<bar>
            \<le> 4 * unitRoundoff * fsub ph 20) \<and>
         (isDouble iw \<and> isDouble ih \<and> iw \<le> fsub pw 20 \<and> ih \<le> fsub ph 20 \<longrightarrow>
            iw \<le> p_width (calculateImageDimensions64 iw ih pw ph fit) \<and>
            ih \<le> p_height (calculateImageDimensions64 iw ih pw ph fit))"
proof -
  define a where "a = fsub pw 20"
  define b where "b = fsub ph 20"
  define s where "s = min (fdiv a iw) (fdiv b ih)"
  have iw: "1 \<le> iw" "iw \<le> 2 powi 31" and ih: "1 \<le> ih" "ih \<le> 2 powi 31"
    using assms(1-4) by (simp_all only: powi31)
  have pw: "round64 pw = pw" "20 < pw" "pw \<le> 2 powi 31"
    using assms(5-7) by (simp_all only: powi31 isDouble_def)
  have ph: "round64 ph = ph" "20 < ph" "ph \<le> 2 powi 31"
    using assms(8-10) by (simp_all only: powi31 isDouble_def)
  note a = available_range [OF pw, folded a_def]
  note b = available_range [OF ph, folded b_def]
  note sx = scale_range (3,4) [OF a iw]
  note sy = scale_range (3,4) [OF b ih]
  have w: "p_width (calculateImageDimensions64 iw ih pw ph fit) = fmul iw s"
    and h: "p_height (calculateImageDimensions64 iw ih pw ph fit) = fmul ih s"
    by (simp_all add: fit64_fields s_def a_def b_def)
  have touches: "\<bar>fmul iw s - a\<bar> \<le> 4 * unitRoundoff * a \<or> \<bar>fmul ih s - b\<bar> \<le> 4 * unitRoundoff * b"
  proof (cases "fdiv a iw \<le> fdiv b ih")
    case True
    then have "s = fdiv a iw" by (simp add: s_def)
    with touch [OF a iw] show ?thesis by simp
  next
    case False
    then have "s = fdiv b ih" by (simp add: s_def)
    with touch [OF b ih] show ?thesis by simp
  qed
  have grows: "iw \<le> fmul iw s \<and> ih \<le> fmul ih s"
    if d: "round64 iw = iw" "round64 ih = ih" and fits: "iw \<le> a" "ih \<le> b"
  proof -
    have one: "(2::real) powi (- 1022) \<le> 1" using powi_le [of "- 1022" 0] by simp
    have top: "x < 2 powi 1024" if "x \<le> 2 powi 64" for x :: real
      using that powi_less [of 64 1024] by linarith
    have qx: "1 \<le> a / iw" using fits(1) iw(1) by simp
    have qxhi: "a / iw \<le> 2 powi 64"
    proof -
      have "a / iw \<le> a / 1" using iw(1) a(1) powi_pos [of "- 49"] by (intro divide_left_mono) simp_all
      with a(2) powi_le [of 32 64] show ?thesis by simp
    qed
    have qy: "1 \<le> b / ih" using fits(2) ih(1) by simp
    have qyhi: "b / ih \<le> 2 powi 64"
    proof -
      have "b / ih \<le> b / 1" using ih(1) b(1) powi_pos [of "- 49"] by (intro divide_left_mono) simp_all
      with b(2) powi_le [of 32 64] show ?thesis by simp
    qed
    have "1 \<le> fdiv a iw" unfolding fdiv_def
      by (rule round64_double_le [OF round64_1 one qx top [OF qxhi]])
    moreover have "1 \<le> fdiv b ih" unfolding fdiv_def
      by (rule round64_double_le [OF round64_1 one qy top [OF qyhi]])
    ultimately have s1: "1 \<le> s" by (simp add: s_def)
    have s2: "s \<le> 2 powi 33" using sx(2) sy(2) by (simp add: s_def min_def)
    have prod: "x * s \<le> 2 powi 64" if "1 \<le> x" "x \<le> 2 powi 31" for x
    proof -
      have "x * s \<le> 2 powi 31 * 2 powi 33" using that s1 s2 by (intro mult_mono) simp_all
      also have "\<dots> = 2 powi 64" by (simp only: powi_mult) simp
      finally show ?thesis .
    qed
    have lo: "2 powi (- 1022) \<le> x" if "1 \<le> x" for x :: real using that one by linarith
    have ge: "x \<le> x * s" if "1 \<le> x" for x using that s1 by simp
    have "iw \<le> fmul iw s" unfolding fmul_def
      by (rule round64_double_le [OF d(1) lo [OF iw(1)] ge [OF iw(1)] top [OF prod [OF iw]]])
    moreover have "ih \<le> fmul ih s" unfolding fmul_def
      by (rule round64_double_le [OF d(2) lo [OF ih(1)] ge [OF ih(1)] top [OF prod [OF ih]]])
    ultimately show ?thesis by simp
  qed
  from touches grows show ?thesis
    unfolding w h a_def [symmetric] b_def [symmetric] isDouble_def by blast
qed

text \<open>A 100 by 50 image on the A4 page is enlarged to the full available width.\<close>

theorem fit_touches_within_rounding_witness:
  "p_width (calculateImageDimensions64 100 50 210 297 fit) = 190 \<and>
   (\<bar>p_width (calculateImageDimensions64 100 50 210 297 fit) - fsub 210 20\<bar>
      \<le> 4 * unitRoundoff * fsub 210 20 \<or>
    \<bar>p_height (calculateImageDimensions64 100 50 210 297 fit) - fsub 297 20\<bar>
      \<le> 4 * unitRoundoff * fsub 297 20) \<and>
   100 \<le> p_width (calculateImageDimensions64 100 50 210 297 fit) \<and>
   50 \<le> p_height (calculateImageDimensions64 100 50 210 297 fit)"
proof -
  have h: "(1::real) \<le> 100" "(100::real) \<le> 2 ^ 31" "(1::real) \<le> 50" "(50::real) \<le> 2 ^ 31"
    "(20::real) < 210" "(210::real) \<le> 2 ^ 31" "(20::real) < 297" "(297::real) \<le> 2 ^ 31"
    by simp_all
  note inst = fit_touches_within_rounding [OF h(1-4) isDouble_210 h(5,6) isDouble_297 h(7,8)]
  have small: "(100::real) \<le> fsub 210 20" "(50::real) \<le> fsub 297 20"
    by (simp_all add: avail_210 avail_297)
  have sx: "fdiv 190 100 = 4278419646001971 / 2251799813685248"
    unfolding fdiv_def by (subst round64_at [of 0]) (simp_all add: round64_eval)
  have sy: "fdiv 277 50 = 6237485483908137 / 1125899906842624"
    unfolding fdiv_def by (subst round64_at [of 2]) (simp_all add: round64_eval)
  have w: "fmul 100 (4278419646001971 / 2251799813685248) = 190"
    unfolding fmul_def by (subst round64_at [of 7]) (simp_all add: round64_eval)
  have width: "p_width (calculateImageDimensions64 100 50 210 297 fit) = 190"
    by (simp add: fit64_fields avail_210 avail_297 sx sy w)
  from inst isDouble_100 isDouble_50 small width show ?thesis by blast
qed

text \<open>
  The input at which C10 fails as stated: a 39 by 1 image on the 210 by 297 mm page. The
  available area is 190 by 277; the width is the binary64 number just below 190, the
  height is about 4.87.
\<close>

theorem fit_touch_not_exact:
  "p_width (calculateImageDimensions64 39 1 210 297 fit) = 6685030696878079 / 35184372088832 \<and>
   p_height (calculateImageDimensions64 39 1 210 297 fit) = 5485153392310219 / 1125899906842624 \<and>
   p_width (calculateImageDimensions64 39 1 210 297 fit) \<noteq> fsub 210 20 \<and>
   p_height (calculateImageDimensions64 39 1 210 297 fit) \<noteq> fsub 297 20 \<and>
   p_width (calculateImageDimensions64 39 1 210 297 fit) \<noteq> 210 - 20 \<and>
   p_height (calculateImageDimensions64 39 1 210 297 fit) \<noteq> 297 - 20"
proof -
  have sx: "fdiv 190 39 = 5485153392310219 / 1125899906842624"
    unfolding fdiv_def by (subst round64_at [of 2]) (simp_all add: round64_eval)
  have sy: "fdiv 277 1 = 277"
    unfolding fdiv_def by (subst round64_at [of 8]) (simp_all add: round64_eval)
  have w: "fmul 39 (5485153392310219 / 1125899906842624) = 6685030696878079 / 35184372088832"
    unfolding fmul_def by (subst round64_at [of 7]) (simp_all add: round64_eval)
  have h: "fmul 1 (5485153392310219 / 1125899906842624) = 5485153392310219 / 1125899906842624"
    unfolding fmul_def by (subst round64_at [of 2]) (simp_all add: round64_eval)
  show ?thesis by (simp add: fit64_fields avail_210 avail_297 sx sy w h)
qed

section \<open>The conversion pipeline\<close>

lemmas example_defs = photoPng_def scanJpeg_def pictureWebp_def brokenPng_def animationGif_def
  mislabelledPng_def a4Library_def strictLibrary_def exampleBrowser_def strictBrowser_def
  sessionWith_def initialSession_def initialWorld_def

lemmas run_defs = handleConvert_def runPipeline_def loopBody_def fileToBase64_def loadImage_def
  new_jsPDF_def blankDocument_def addPage_def addImage_def outputBlob_def emit_def
  createObjectURL_def filteredFiles_def Let_def

subsection \<open>One iteration\<close>

lemma loopBody_world:
  "loopBody lib env opts i f pdf w = (w', r) \<Longrightarrow>
     objectURLs w' = objectURLs w \<and> nextURL w' = nextURL w"
  by (auto simp: loopBody_def Let_def emit_def
      split: sum.splits option.splits if_splits prod.splits)

lemma loopBody_fails:
  "readFails env f \<or> decodeFails env f \<Longrightarrow> \<exists>e. snd (loopBody lib env opts i f pdf w) = Inl e"
  by (auto simp: loopBody_def Let_def fileToBase64_def loadImage_def readFails_def
        decodeFails_def
      split: option.splits prod.splits sum.splits)

lemma createdWith_fields:
  "createdWith lib opts pdf \<Longrightarrow>
     pdf_orientation pdf = orientation opts \<and> pdf_format pdf = pageSize opts \<and>
     pdf_pageWidth pdf = fst (pageSizeOf lib (pageSize opts) (orientation opts)) \<and>
     pdf_pageHeight pdf = snd (pageSizeOf lib (pageSize opts) (orientation opts))"
  by (cases pdf) (simp add: createdWith_def blankDocument_def)

lemma createdWith_blank: "createdWith lib opts (blankDocument lib (orientation opts) (pageSize opts))"
  by (simp add: createdWith_def blankDocument_def)

text \<open>
  An iteration that ends normally has made the page turn, if the file is not the first,
  and then exactly the calls of the page that belongs to the file.
\<close>

lemma loopBody_calls:
  assumes "loopBody lib env opts i f pdf w = (w', Inr pdf')" and "createdWith lib opts pdf"
  shows "pdf_calls pdf' =
           pdf_calls pdf @ (if i > 0 then [AddPage] else []) @ expectedPage lib env opts f"
    and "createdWith lib opts pdf'"
    and "\<not> readFails env f \<and> \<not> decodeFails env f"
  using assms(1) createdWith_fields [OF assms(2)] assms(2)
  by (auto simp: loopBody_def Let_def fileToBase64_def loadImage_def addPage_def addImage_def
        expectedPage_def imageToPlace_def createdWith_def readFails_def decodeFails_def
      split: option.splits prod.splits if_splits sum.splits)



lemma expectedPage_shape:
  "expectedPage lib env opts f = [] \<or>
   (\<exists>d fm px py w h. expectedPage lib env opts f = [AddImage d fm px py w h])"
  by (auto simp: expectedPage_def split: option.splits prod.splits)



lemma count_AddPage_page:
  "length (filter (\<lambda>c. c = AddPage) (expectedPage lib env opts f)) = 0"
  using expectedPage_shape [of lib env opts f] by auto

subsection \<open>The loop\<close>

lemma convertLoop_world:
  "convertLoop lib env opts i fs pdf w = (w', r) \<Longrightarrow>
     objectURLs w' = objectURLs w \<and> nextURL w' = nextURL w"
proof (induction fs arbitrary: i pdf w)
  case Nil
  then show ?case by simp
next
  case (Cons f fs)
  obtain w1 r1 where b: "loopBody lib env opts i f pdf w = (w1, r1)"
    by (cases "loopBody lib env opts i f pdf w")
  note bw = loopBody_world [OF b]
  show ?case
  proof (cases r1)
    case (Inl e)
    with Cons.prems b bw show ?thesis by simp
  next
    case (Inr pdf')
    with Cons.prems b have "convertLoop lib env opts (i + 1) fs pdf' w1 = (w', r)" by simp
    from Cons.IH [OF this] bw show ?thesis by simp
  qed
qed

lemma convertLoop_fails:
  "\<exists>f\<in>set fs. readFails env f \<or> decodeFails env f \<Longrightarrow>
     \<exists>e. snd (convertLoop lib env opts i fs pdf w) = Inl e"
proof (induction fs arbitrary: i pdf w)
  case Nil
  then show ?case by simp
next
  case (Cons f fs)
  obtain w1 r1 where b: "loopBody lib env opts i f pdf w = (w1, r1)"
    by (cases "loopBody lib env opts i f pdf w")
  show ?case
  proof (cases r1)
    case (Inl e)
    with b show ?thesis by simp
  next
    case (Inr pdf')
    with b have "\<not> (readFails env f \<or> decodeFails env f)"
      using loopBody_fails [of env f lib opts i pdf w] by auto
    with Cons.prems have "\<exists>f\<in>set fs. readFails env f \<or> decodeFails env f" by simp
    from Cons.IH [OF this, of "i + 1" pdf' w1] b Inr show ?thesis by simp
  qed
qed


lemma convertLoop_calls_later:
  assumes "convertLoop lib env opts i fs pdf w = (w', Inr doc)"
    and "createdWith lib opts pdf" and "0 < i"
  shows "pdf_calls doc =
           pdf_calls pdf @ concat (map (\<lambda>f. AddPage # expectedPage lib env opts f) fs) \<and>
         createdWith lib opts doc"
  using assms
proof (induction fs arbitrary: i pdf w)
  case Nil
  then show ?case by simp
next
  case (Cons f fs)
  obtain w1 r1 where b: "loopBody lib env opts i f pdf w = (w1, r1)"
    by (cases "loopBody lib env opts i f pdf w")
  show ?case
  proof (cases r1)
    case (Inl e)
    with b Cons.prems show ?thesis by simp
  next
    case (Inr pdf')
    with b Cons.prems have rest: "convertLoop lib env opts (i + 1) fs pdf' w1 = (w', Inr doc)"
      by simp
    from b Inr have "loopBody lib env opts i f pdf w = (w1, Inr pdf')" by simp
    from loopBody_calls (1,2) [OF this Cons.prems(2)] Cons.prems(3)
    have c: "pdf_calls pdf' = pdf_calls pdf @ AddPage # expectedPage lib env opts f"
      and p: "createdWith lib opts pdf'" by simp_all
    from Cons.IH [OF rest p] c show ?thesis by simp
  qed
qed

lemma convertLoop_calls_first:
  assumes "convertLoop lib env opts 0 (f # fs) pdf w = (w', Inr doc)"
    and "createdWith lib opts pdf"
  shows "pdf_calls doc =
           pdf_calls pdf @ expectedPage lib env opts f @
           concat (map (\<lambda>f. AddPage # expectedPage lib env opts f) fs) \<and>
         createdWith lib opts doc"
proof -
  obtain w1 r1 where b: "loopBody lib env opts 0 f pdf w = (w1, r1)"
    by (cases "loopBody lib env opts 0 f pdf w")
  show ?thesis
  proof (cases r1)
    case (Inl e)
    with b assms show ?thesis by simp
  next
    case (Inr pdf')
    with b assms have rest: "convertLoop lib env opts (0 + 1) fs pdf' w1 = (w', Inr doc)"
      by simp
    from b Inr have "loopBody lib env opts 0 f pdf w = (w1, Inr pdf')" by simp
    from loopBody_calls (1,2) [OF this assms(2)]
    have c: "pdf_calls pdf' = pdf_calls pdf @ expectedPage lib env opts f"
      and p: "createdWith lib opts pdf'" by simp_all
    from convertLoop_calls_later [OF rest p] c show ?thesis by simp
  qed
qed

subsection \<open>Calls and pages\<close>

lemma pagesFrom_page:
  "pages \<noteq> [] \<Longrightarrow>
     pagesFrom pages (expectedPage lib env opts f @ cs)
       = pagesFrom (butlast pages @ [last pages @ expectedPage lib env opts f]) cs"
  using expectedPage_shape [of lib env opts f] by auto

lemma pagesFrom_later:
  "pagesFrom pages (concat (map (\<lambda>f. AddPage # expectedPage lib env opts f) fs))
     = pages @ map (expectedPage lib env opts) fs"
proof (induction fs arbitrary: pages)
  case Nil
  show ?case by simp
next
  case (Cons f fs)
  have "pagesFrom pages (concat (map (\<lambda>f. AddPage # expectedPage lib env opts f) (f # fs)))
      = pagesFrom (pages @ [[]])
          (expectedPage lib env opts f @
           concat (map (\<lambda>f. AddPage # expectedPage lib env opts f) fs))"
    by simp
  also have "\<dots> = pagesFrom (pages @ [expectedPage lib env opts f])
                    (concat (map (\<lambda>f. AddPage # expectedPage lib env opts f) fs))"
    by (subst pagesFrom_page) simp_all
  also have "\<dots> = (pages @ [expectedPage lib env opts f]) @ map (expectedPage lib env opts) fs"
    by (rule Cons.IH)
  finally show ?case by simp
qed

lemma count_AddPage_later:
  "length (filter (\<lambda>c. c = AddPage)
       (concat (map (\<lambda>f. AddPage # expectedPage lib env opts f) fs)))
     = length fs"
  by (induction fs) (simp_all add: count_AddPage_page del: length_0_conv)

subsection \<open>The run\<close>

lemma runPipeline_world:
  "runPipeline lib env opts fs w = (w', r) \<Longrightarrow>
     objectURLs w' = objectURLs w \<and> nextURL w' = nextURL w"
proof -
  assume run: "runPipeline lib env opts fs w = (w', r)"
  let ?w0 = "emit (NewDocument (orientation opts) (pageSize opts)) w"
  show ?thesis
  proof (cases "new_jsPDF lib (orientation opts) (pageSize opts)")
    case (Inl e)
    with run show ?thesis by (auto simp: runPipeline_def Let_def emit_def)
  next
    case (Inr pdf)
    obtain w1 r1 where l: "convertLoop lib env opts 0 fs pdf ?w0 = (w1, r1)"
      by (cases "convertLoop lib env opts 0 fs pdf ?w0")
    from convertLoop_world [OF l] have "objectURLs w1 = objectURLs w \<and> nextURL w1 = nextURL w"
      by (simp add: emit_def)
    moreover from run Inr l have "w' = w1"
      by (cases r1) (simp_all add: runPipeline_def Let_def)
    ultimately show ?thesis by simp
  qed
qed

lemma runPipeline_fails:
  assumes "\<exists>f\<in>set fs. readFails env f \<or> decodeFails env f"
  shows "\<exists>e. snd (runPipeline lib env opts fs w) = Inl e"
proof (cases "new_jsPDF lib (orientation opts) (pageSize opts)")
  case (Inl e)
  then show ?thesis by (simp add: runPipeline_def Let_def)
next
  case (Inr pdf)
  let ?w0 = "emit (NewDocument (orientation opts) (pageSize opts)) w"
  from convertLoop_fails [OF assms, of lib opts 0 pdf ?w0]
  obtain e where "snd (convertLoop lib env opts 0 fs pdf ?w0) = Inl e" by blast
  then show ?thesis using Inr
    by (cases "convertLoop lib env opts 0 fs pdf ?w0") (simp add: runPipeline_def Let_def)
qed


lemma runPipeline_document:
  assumes "fs \<noteq> []" and "runPipeline lib env opts fs w = (w', Inr doc)"
  shows "pdf_calls doc =
           expectedPage lib env opts (hd fs) @
           concat (map (\<lambda>f. AddPage # expectedPage lib env opts f) (tl fs))"
    and "pdf_pages doc = map (expectedPage lib env opts) fs"
    and "createdWith lib opts doc"
proof -
  let ?w0 = "emit (NewDocument (orientation opts) (pageSize opts)) w"
  let ?pdf = "blankDocument lib (orientation opts) (pageSize opts)"
  from assms(1) obtain f rest where fs: "fs = f # rest" by (cases fs) auto
  have new: "new_jsPDF lib (orientation opts) (pageSize opts) = Inr ?pdf"
    using assms(2) by (auto simp: runPipeline_def Let_def new_jsPDF_def split: if_splits)
  obtain w1 r1 where l: "convertLoop lib env opts 0 (f # rest) ?pdf ?w0 = (w1, r1)"
    by (cases "convertLoop lib env opts 0 (f # rest) ?pdf ?w0")
  from assms(2) new l fs have "r1 = Inr doc"
    by (cases r1) (auto simp: runPipeline_def Let_def outputBlob_def split: if_splits)
  with l have "convertLoop lib env opts 0 (f # rest) ?pdf ?w0 = (w1, Inr doc)" by simp
  from convertLoop_calls_first [OF this createdWith_blank]
  have calls: "pdf_calls doc =
      expectedPage lib env opts f @
      concat (map (\<lambda>f. AddPage # expectedPage lib env opts f) rest)"
    and created: "createdWith lib opts doc"
    by (simp_all add: blankDocument_def)
  from calls show "pdf_calls doc =
      expectedPage lib env opts (hd fs) @
      concat (map (\<lambda>f. AddPage # expectedPage lib env opts f) (tl fs))"
    by (simp add: fs)
  show "pdf_pages doc = map (expectedPage lib env opts) fs"
    unfolding pdf_pages_def calls fs
    by (subst pagesFrom_page) (simp_all add: pagesFrom_later)
  from created show "createdWith lib opts doc" .
qed

subsection \<open>The three ways out of \<^verbatim>\<open>handleConvert\<close>\<close>

lemma handleConvert_completed:
  assumes "filteredFiles s \<noteq> []" and "jspdf env = Some lib"
    and "runPipeline lib env (options s) (filteredFiles s) w = (w1, Inr doc)"
  shows "handleConvert env (s, w) =
           (s\<lparr>pdfBlobUrl := Some (nextURL w), status := SUCCESS\<rparr>,
            w1\<lparr>objectURLs := (objectURLs w)(nextURL w \<mapsto> doc), nextURL := nextURL w + 1\<rparr>)"
  using assms runPipeline_world [OF assms(3)]
  by (simp add: handleConvert_def createObjectURL_def)

lemma handleConvert_aborted:
  assumes "filteredFiles s \<noteq> []" and "jspdf env = Some lib"
    and "runPipeline lib env (options s) (filteredFiles s) w = (w1, Inl e)"
  shows "handleConvert env (s, w) =
           (s\<lparr>status := FILES_SELECTED\<rparr>,
            emit (Alert ''An error occurred during conversion. Please try again.'')
              (emit (ConsoleError ''Error converting to PDF:'') w1))"
  using assms by (simp add: handleConvert_def)

lemma handleConvert_cases:
  obtains (unchanged) "fst (handleConvert env (s, w)) = s"
      and "objectURLs (snd (handleConvert env (s, w))) = objectURLs w"
  | (aborted) "fst (handleConvert env (s, w)) = s\<lparr>status := FILES_SELECTED\<rparr>"
      and "objectURLs (snd (handleConvert env (s, w))) = objectURLs w"
  | (completed) doc where
      "fst (handleConvert env (s, w)) = s\<lparr>pdfBlobUrl := Some (nextURL w), status := SUCCESS\<rparr>"
      and "objectURLs (snd (handleConvert env (s, w))) = (objectURLs w)(nextURL w \<mapsto> doc)"
proof (cases "filteredFiles s = [] \<or> jspdf env = None")
  case True
  then have "fst (handleConvert env (s, w)) = s"
    and "objectURLs (snd (handleConvert env (s, w))) = objectURLs w"
    by (auto simp: handleConvert_def emit_def)
  then show ?thesis by (rule unchanged)
next
  case False
  then obtain lib where ne: "filteredFiles s \<noteq> []" and lib: "jspdf env = Some lib" by auto
  obtain w1 r where run: "runPipeline lib env (options s) (filteredFiles s) w = (w1, r)"
    by (cases "runPipeline lib env (options s) (filteredFiles s) w")
  note same = runPipeline_world [OF run]
  show ?thesis
  proof (cases r)
    case (Inl e)
    with run handleConvert_aborted [OF ne lib, of w w1 e] same
    have "fst (handleConvert env (s, w)) = s\<lparr>status := FILES_SELECTED\<rparr>"
      and "objectURLs (snd (handleConvert env (s, w))) = objectURLs w"
      by (simp_all add: emit_def)
    then show ?thesis by (rule aborted)
  next
    case (Inr doc)
    with run handleConvert_completed [OF ne lib, of w w1 doc]
    have "fst (handleConvert env (s, w))
            = s\<lparr>pdfBlobUrl := Some (nextURL w), status := SUCCESS\<rparr>"
      and "objectURLs (snd (handleConvert env (s, w))) = (objectURLs w)(nextURL w \<mapsto> doc)"
      by simp_all
    then show ?thesis by (rule completed)
  qed
qed

text \<open>
  The example run: an 800 by 600 PNG, a WebP file without canvas context and a JPEG, on
  A4 pages in \<open>fit\<close> mode. The second page stays empty.
\<close>

lemma example_pages:
  "expectedPage a4Library exampleBrowser (options initialSession) photoPng
     = [AddImage ''photo.png'' ''PNG'' 10 (309 / 4) 190 (285 / 2)] \<and>
   expectedPage a4Library exampleBrowser (options initialSession) pictureWebp = [] \<and>
   expectedPage a4Library exampleBrowser (options initialSession) scanJpeg
     = [AddImage ''scan.jpg'' ''JPEG'' 10 (309 / 4) 190 (285 / 2)]"
  by (simp add: expectedPage_def imageToPlace_def example_defs fit64_800_600_a4)

lemma example_document:
  "\<exists>w'. runPipeline a4Library exampleBrowser (options initialSession)
      [photoPng, pictureWebp, scanJpeg] initialWorld =
    (w', Inr \<lparr>pdf_orientation = portrait, pdf_format = a4,
              pdf_pageWidth = 210, pdf_pageHeight = 297,
              pdf_calls = [AddImage ''photo.png'' ''PNG'' 10 (309 / 4) 190 (285 / 2),
                           AddPage, AddPage,
                           AddImage ''scan.jpg'' ''JPEG'' 10 (309 / 4) 190 (285 / 2)]\<rparr>)"
  by (simp add: example_defs run_defs fit64_800_600_a4)

section \<open>Statements about a conversion\<close>

text \<open>
  C5. A conversion of a non-empty filtered selection of \<open>N\<close> files that ends in
  \<open>SUCCESS\<close> stores a handle to a document that was created with the page size and
  orientation of the options and has exactly \<open>N\<close> pages, in the order of the files: page
  \<open>k\<close> is the page that belongs to file \<open>k\<close>, holding the data of that file, with its
  format tag, at the rectangle computed for it. The calls on the document are the content
  of the first file, then for every later file one \<open>AddPage\<close> followed by that file's
  content; so there are \<open>N - 1\<close> page-append calls, and none for a single file.
\<close>

theorem convert_pages_follow_input:
  assumes "filteredFiles s \<noteq> []" and "jspdf env = Some lib"
    and "handleConvert env (s, w) = (s', w')" and "status s' = SUCCESS"
  shows "\<exists>doc. pdfBlobUrl s' = Some (nextURL w) \<and> objectURLs w' (nextURL w) = Some doc \<and>
           pdf_orientation doc = orientation (options s) \<and>
           pdf_format doc = pageSize (options s) \<and>
           length (pdf_pages doc) = length (filteredFiles s) \<and>
           pdf_pages doc = map (expectedPage lib env (options s)) (filteredFiles s) \<and>
           pdf_calls doc =
             expectedPage lib env (options s) (hd (filteredFiles s)) @
             concat (map (\<lambda>f. AddPage # expectedPage lib env (options s) f)
                       (tl (filteredFiles s))) \<and>
           length (filter (\<lambda>c. c = AddPage) (pdf_calls doc)) = length (filteredFiles s) - 1 \<and>
           (length (filteredFiles s) = 1 \<longrightarrow> AddPage \<notin> set (pdf_calls doc))"
proof -
  let ?fs = "filteredFiles s"
  obtain w1 r where run: "runPipeline lib env (options s) ?fs w = (w1, r)"
    by (cases "runPipeline lib env (options s) ?fs w")
  show ?thesis
  proof (cases r)
    case (Inl e)
    with run handleConvert_aborted [OF assms(1,2), of w w1 e] assms(3,4) show ?thesis
      by auto
  next
    case (Inr doc)
    with run have run': "runPipeline lib env (options s) ?fs w = (w1, Inr doc)" by simp
    note doc = runPipeline_document [OF assms(1) run']
    from handleConvert_completed [OF assms(1,2) run'] assms(3)
    have s': "pdfBlobUrl s' = Some (nextURL w)"
      and w': "objectURLs w' (nextURL w) = Some doc"
      by auto
    from createdWith_fields [OF doc(3)]
    have created: "pdf_orientation doc = orientation (options s)"
      "pdf_format doc = pageSize (options s)"
      by simp_all
    have cnt: "length (filter (\<lambda>c. c = AddPage) (pdf_calls doc)) = length ?fs - 1"
      unfolding doc(1)
      using count_AddPage_page [of lib env "options s" "hd ?fs"]
        count_AddPage_later [of lib env "options s" "tl ?fs"]
      by (simp del: length_0_conv)
    have single: "AddPage \<notin> set (pdf_calls doc)" if "length ?fs = 1"
    proof -
      from that have "tl ?fs = []" by (cases ?fs) simp_all
      with doc(1) expectedPage_shape [of lib env "options s" "hd ?fs"] show ?thesis by auto
    qed
    from s' w' created doc(1,2) cnt single show ?thesis by simp
  qed
qed

text \<open>
  A PNG, a GIF, a WebP and a JPEG file are selected; the GIF is filtered out, the WebP
  file gets no canvas context. The document has three pages, the first with the PNG
  data, the second empty, the third with the JPEG data, and two \<open>AddPage\<close> calls.
\<close>

theorem convert_pages_follow_input_witness:
  "\<exists>doc. objectURLs (snd (handleConvert exampleBrowser
              (sessionWith [photoPng, animationGif, pictureWebp, scanJpeg], initialWorld))) 0
            = Some doc \<and>
         pdf_pages doc =
           [[AddImage ''photo.png'' ''PNG'' 10 (309 / 4) 190 (285 / 2)],
            [],
            [AddImage ''scan.jpg'' ''JPEG'' 10 (309 / 4) 190 (285 / 2)]] \<and>
         length (filter (\<lambda>c. c = AddPage) (pdf_calls doc)) = 2"
proof -
  let ?s = "sessionWith [photoPng, animationGif, pictureWebp, scanJpeg]"
  have fs: "filteredFiles ?s = [photoPng, pictureWebp, scanJpeg]"
    by (simp add: example_defs filteredFiles_def)
  then have ne: "filteredFiles ?s \<noteq> []" by simp
  have opts: "options ?s = options initialSession" by (simp add: sessionWith_def)
  have lib: "jspdf exampleBrowser = Some a4Library" by (simp add: exampleBrowser_def)
  have run: "handleConvert exampleBrowser (?s, initialWorld)
      = (fst (handleConvert exampleBrowser (?s, initialWorld)),
         snd (handleConvert exampleBrowser (?s, initialWorld)))" by simp
  have ok: "status (fst (handleConvert exampleBrowser (?s, initialWorld))) = SUCCESS"
    by (simp add: example_defs run_defs)
  from convert_pages_follow_input [OF ne lib run ok] obtain doc where
    "objectURLs (snd (handleConvert exampleBrowser (?s, initialWorld))) (nextURL initialWorld)
       = Some doc"
    "pdf_pages doc = map (expectedPage a4Library exampleBrowser (options ?s)) (filteredFiles ?s)"
    "length (filter (\<lambda>c. c = AddPage) (pdf_calls doc)) = length (filteredFiles ?s) - 1"
    by blast
  then show ?thesis using example_pages by (simp add: fs opts initialWorld_def)
qed

text \<open>
  C6. When the library is loaded and the read or a decoding of some file of the filtered
  selection fails, the conversion aborts: the status becomes \<open>FILES_SELECTED\<close>, the
  files and the options are as before, no handle is stored and no object URL is
  created.
\<close>

theorem read_or_decode_failure_aborts:
  assumes "jspdf env = Some lib" and "f \<in> set (filteredFiles s)"
    and "readFails env f \<or> decodeFails env f"
    and "handleConvert env (s, w) = (s', w')"
  shows "status s' = FILES_SELECTED \<and> files s' = files s \<and> options s' = options s \<and>
         pdfBlobUrl s' = pdfBlobUrl s \<and> objectURLs w' = objectURLs w \<and>
         nextURL w' = nextURL w"
proof -
  let ?fs = "filteredFiles s"
  from assms(2) have ne: "?fs \<noteq> []" by auto
  from assms(2,3) have "\<exists>f\<in>set ?fs. readFails env f \<or> decodeFails env f" by blast
  from runPipeline_fails [OF this, of lib "options s" w]
  obtain e where "snd (runPipeline lib env (options s) ?fs w) = Inl e" by blast
  then obtain w1 where run: "runPipeline lib env (options s) ?fs w = (w1, Inl e)"
    by (cases "runPipeline lib env (options s) ?fs w") simp
  from handleConvert_aborted [OF ne assms(1) run] assms(4) runPipeline_world [OF run]
  show ?thesis by (auto simp: emit_def)
qed

text \<open>The second of two files cannot be read.\<close>

theorem read_or_decode_failure_aborts_witness:
  "status (fst (handleConvert exampleBrowser (sessionWith [photoPng, brokenPng], initialWorld)))
     = FILES_SELECTED \<and>
   files (fst (handleConvert exampleBrowser (sessionWith [photoPng, brokenPng], initialWorld)))
     = [photoPng, brokenPng] \<and>
   pdfBlobUrl (fst (handleConvert exampleBrowser
                      (sessionWith [photoPng, brokenPng], initialWorld)))
     = None \<and>
   objectURLs (snd (handleConvert exampleBrowser
                      (sessionWith [photoPng, brokenPng], initialWorld)))
     = Map.empty"
proof -
  let ?s = "sessionWith [photoPng, brokenPng]"
  have lib: "jspdf exampleBrowser = Some a4Library" by (simp add: exampleBrowser_def)
  have mem: "brokenPng \<in> set (filteredFiles ?s)"
    by (simp add: example_defs filteredFiles_def)
  have bad: "readFails exampleBrowser brokenPng \<or> decodeFails exampleBrowser brokenPng"
    by (simp add: readFails_def example_defs)
  have run: "handleConvert exampleBrowser (?s, initialWorld)
      = (fst (handleConvert exampleBrowser (?s, initialWorld)),
         snd (handleConvert exampleBrowser (?s, initialWorld)))" by simp
  from read_or_decode_failure_aborts [OF lib mem bad run] show ?thesis
    by (simp add: sessionWith_def initialSession_def initialWorld_def)
qed




text \<open>
  C8. When the filtered selection is empty or the library is not loaded,
  \<^verbatim>\<open>handleConvert\<close> returns the session as it was (status, files, options and stored
  handle), creates and revokes no object URL, and does nothing but show one alert: no
  document is created.
\<close>

theorem convert_without_input_or_library:
  assumes "filteredFiles s = [] \<or> jspdf env = None"
  shows "fst (handleConvert env (s, w)) = s \<and>
         objectURLs (snd (handleConvert env (s, w))) = objectURLs w \<and>
         nextURL (snd (handleConvert env (s, w))) = nextURL w \<and>
         (\<exists>msg. effects (snd (handleConvert env (s, w))) = effects w @ [Alert msg])"
  using assms by (auto simp: handleConvert_def emit_def)

text \<open>Only a GIF file is selected.\<close>

theorem convert_without_input_or_library_witness:
  "fst (handleConvert exampleBrowser (sessionWith [animationGif], initialWorld))
     = sessionWith [animationGif] \<and>
   objectURLs (snd (handleConvert exampleBrowser (sessionWith [animationGif], initialWorld)))
     = Map.empty \<and>
   (\<exists>msg. effects (snd (handleConvert exampleBrowser
                          (sessionWith [animationGif], initialWorld))) = [Alert msg])"
proof -
  have "filteredFiles (sessionWith [animationGif]) = [] \<or> jspdf exampleBrowser = None"
    by (simp add: example_defs filteredFiles_def)
  from convert_without_input_or_library [OF this, of initialWorld] show ?thesis
    by (simp add: initialWorld_def)
qed

section \<open>The handle of the artifact\<close>

text \<open>
  \<^verbatim>\<open>handleConvert\<close> itself revokes nothing: every object URL that is alive before is
  alive after. Called on a session that holds a handle, which no sequence of offered
  handlers leads to, it would leave two of them alive.
\<close>

lemma handleConvert_keeps_objectURLs:
  "dom (objectURLs w) \<subseteq> dom (objectURLs (snd (handleConvert env (s, w))))"
  by (cases rule: handleConvert_cases [of env s w]) auto

lemma handleConvert_on_held_handle:
  "pdfBlobUrl (fst (handleConvert exampleBrowser
      ((sessionWith [photoPng])\<lparr>pdfBlobUrl := Some 0\<rparr>,
       initialWorld\<lparr>objectURLs := [0 \<mapsto> blankDocument a4Library portrait a4], nextURL := 1\<rparr>)))
     = Some 1 \<and>
   dom (objectURLs (snd (handleConvert exampleBrowser
      ((sessionWith [photoPng])\<lparr>pdfBlobUrl := Some 0\<rparr>,
       initialWorld\<lparr>objectURLs := [0 \<mapsto> blankDocument a4Library portrait a4], nextURL := 1\<rparr>))))
     = {0, 1}"
  by (auto simp add: example_defs run_defs)

lemma handleReset_revokes:
  "pdfBlobUrl (fst (handleReset (s, w))) = None \<and>
   dom (objectURLs (snd (handleReset (s, w))))
     = dom (objectURLs w) - set_option (pdfBlobUrl s)"
  by (auto simp: handleReset_def revokeObjectURL_def split: option.splits if_splits)

lemma owned_handleConvert:
  assumes "owned (s, w)" and "status s = FILES_SELECTED"
  shows "owned (handleConvert env (s, w))"
proof -
  from assms have none: "pdfBlobUrl s = None" and empty: "dom (objectURLs w) = {}"
    by (auto simp: owned_def)
  show ?thesis
  proof (cases rule: handleConvert_cases [of env s w])
    case unchanged
    with assms(1) show ?thesis by (simp add: owned_def)
  next
    case aborted
    with none empty show ?thesis by (simp add: owned_def)
  next
    case (completed doc)
    with empty show ?thesis by (simp add: owned_def)
  qed
qed

lemma owned_step:
  assumes "owned sw" and "offered (status (fst sw)) ev"
  shows "owned (handle ev sw)"
proof -
  obtain s w where sw: "sw = (s, w)" by (cases sw)
  show ?thesis
  proof (cases ev)
    case (FilesAdded newFiles)
    with assms sw have "status s = IDLE" by (cases "status s") simp_all
    with assms(1) sw FilesAdded show ?thesis
      by (auto simp: owned_def handleFilesAdded_def)
  next
    case (RemoveFile n)
    with assms sw have "status s = FILES_SELECTED" by (cases "status s") simp_all
    with assms(1) sw RemoveFile show ?thesis
      by (auto simp: owned_def handleRemoveFile_def Let_def)
  next
    case (OptionChange newOptions)
    with assms(1) sw show ?thesis
      by (auto simp: owned_def handleOptionChange_def)
  next
    case (Convert env)
    with assms sw have "status s = FILES_SELECTED" by (cases "status s") simp_all
    with assms(1) sw Convert show ?thesis by (simp add: owned_handleConvert)
  next
    case DownloadClicked
    with assms(1) sw show ?thesis
      by (auto simp: owned_def handleDownload_def emit_def split: option.splits)
  next
    case Reset
    with assms(1) sw handleReset_revokes [of s w] show ?thesis
      by (simp add: owned_def)
  qed
qed

lemma reachable_owned: "reachable sw \<Longrightarrow> owned sw"
proof (induction rule: reachable.induct)
  case start
  show ?case by (simp add: owned_def initialSession_def initialWorld_def)
next
  case (step sw ev)
  then show ?case by (simp add: owned_step)
qed

text \<open>
  C9. In every state that a session reaches, the object URLs that are alive are exactly
  the handle the session holds, so there is never more than one. Whenever a conversion
  can be started, the session holds no handle and none is alive: the handle of an
  earlier run was released before, and after the conversion there is again at most one.
  A reset leaves the session without a handle and no object URL alive.
\<close>

theorem artifact_handle_single_owner:
  assumes "reachable (s, w)"
  shows "dom (objectURLs w) = set_option (pdfBlobUrl s) \<and>
         card (dom (objectURLs w)) \<le> 1 \<and>
         (offered (status s) (Convert env) \<longrightarrow>
            pdfBlobUrl s = None \<and> dom (objectURLs w) = {} \<and>
            card (dom (objectURLs (snd (handleConvert env (s, w))))) \<le> 1) \<and>
         pdfBlobUrl (fst (handleReset (s, w))) = None \<and>
         dom (objectURLs (snd (handleReset (s, w)))) = {}"
proof -
  from reachable_owned [OF assms]
  have dom: "dom (objectURLs w) = set_option (pdfBlobUrl s)"
    and held: "pdfBlobUrl s \<noteq> None \<longrightarrow> status s = SUCCESS"
    by (simp_all add: owned_def)
  have card: "card (dom (objectURLs w)) \<le> 1"
    unfolding dom by (cases "pdfBlobUrl s") simp_all
  have conv: "pdfBlobUrl s = None \<and> dom (objectURLs w) = {} \<and>
      card (dom (objectURLs (snd (handleConvert env (s, w))))) \<le> 1"
    if off: "offered (status s) (Convert env)"
  proof -
    from off have st: "status s = FILES_SELECTED" by (cases "status s") simp_all
    with held have none: "pdfBlobUrl s = None" by auto
    with dom have empty: "dom (objectURLs w) = {}" by simp
    from assms off have "reachable (handle (Convert env) (s, w))"
      using reachable.step [of "(s, w)" "Convert env"] by simp
    then have "owned (handleConvert env (s, w))" using reachable_owned by simp
    then have "dom (objectURLs (snd (handleConvert env (s, w))))
        = set_option (pdfBlobUrl (fst (handleConvert env (s, w))))"
      by (simp add: owned_def)
    then have "card (dom (objectURLs (snd (handleConvert env (s, w))))) \<le> 1"
      by (cases "pdfBlobUrl (fst (handleConvert env (s, w)))") simp_all
    with none empty show ?thesis by simp
  qed
  from handleReset_revokes [of s w] dom
  have reset: "pdfBlobUrl (fst (handleReset (s, w))) = None"
    "dom (objectURLs (snd (handleReset (s, w)))) = {}"
    by simp_all
  from dom card conv reset show ?thesis by blast
qed

text \<open>A file is added and converted: the session holds handle 0, a reset releases it.\<close>

theorem artifact_handle_single_owner_witness:
  "reachable (handle (Convert exampleBrowser)
               (handle (FilesAdded [photoPng]) (initialSession, initialWorld))) \<and>
   pdfBlobUrl (fst (handle (Convert exampleBrowser)
                      (handle (FilesAdded [photoPng]) (initialSession, initialWorld))))
     = Some 0 \<and>
   dom (objectURLs (snd (handle (Convert exampleBrowser)
                      (handle (FilesAdded [photoPng]) (initialSession, initialWorld)))))
     = {0} \<and>
   dom (objectURLs (snd (handleReset (handle (Convert exampleBrowser)
                      (handle (FilesAdded [photoPng]) (initialSession, initialWorld))))))
     = {}"
proof -
  let ?sw0 = "(initialSession, initialWorld)"
  let ?sw1 = "handle (FilesAdded [photoPng]) ?sw0"
  let ?sw2 = "handle (Convert exampleBrowser) ?sw1"
  have "offered (status (fst ?sw0)) (FilesAdded [photoPng])" by (simp add: initialSession_def)
  from reachable.step [OF reachable.start this] have r1: "reachable ?sw1" .
  have "offered (status (fst ?sw1)) (Convert exampleBrowser)"
    by (simp add: handleFilesAdded_def)
  from reachable.step [OF r1 this] have r2: "reachable ?sw2" .
  then have r2': "reachable (fst ?sw2, snd ?sw2)" by simp
  have url: "pdfBlobUrl (fst ?sw2) = Some 0"
    by (simp add: handleFilesAdded_def example_defs run_defs)
  from artifact_handle_single_owner [OF r2', of exampleBrowser]
  have "dom (objectURLs (snd ?sw2)) = set_option (pdfBlobUrl (fst ?sw2))"
    and "dom (objectURLs (snd (handleReset (fst ?sw2, snd ?sw2)))) = {}"
    by blast+
  with url r2 show ?thesis by simp
qed

end
